theory Spec2Isabelle
  imports Main
begin

section \<open>Python strings and built-ins used by main.py\<close>

text \<open>
  A Python \<open>str\<close> is modelled as a HOL \<open>string\<close>; each \<open>char\<close> stands for the code
  point of the same number (0 to 255). The tables below are those of CPython for these
  code points: the white space of \<open>str.strip\<close>, the letters changed by \<open>str.lower\<close>,
  the white space, signs, digits and underscores accepted by \<open>int\<close>.
\<close>

definition NL :: string where
  "NL = [CHR 0x0A]"

definition py_isspace :: "char \<Rightarrow> bool" where
  "py_isspace c = (c \<in> set [CHR 0x09, CHR 0x0A, CHR 0x0B, CHR 0x0C, CHR 0x0D,
     CHR 0x1C, CHR 0x1D, CHR 0x1E, CHR 0x1F, CHR 0x20, CHR 0x85, CHR 0xA0])"

definition py_strip :: "string \<Rightarrow> string" where
  "py_strip s = rev (dropWhile py_isspace (rev (dropWhile py_isspace s)))"

fun py_join :: "string \<Rightarrow> string list \<Rightarrow> string" where
  "py_join sep [] = []"
| "py_join sep [x] = x"
| "py_join sep (x # y # ys) = x @ sep @ py_join sep (y # ys)"

definition lower_table :: "(char \<times> char) list" where
  "lower_table =
     zip ''ABCDEFGHIJKLMNOPQRSTUVWXYZ'' ''abcdefghijklmnopqrstuvwxyz'' @
     [(CHR 0xC0, CHR 0xE0), (CHR 0xC1, CHR 0xE1), (CHR 0xC2, CHR 0xE2), (CHR 0xC3, CHR 0xE3),
      (CHR 0xC4, CHR 0xE4), (CHR 0xC5, CHR 0xE5), (CHR 0xC6, CHR 0xE6), (CHR 0xC7, CHR 0xE7),
      (CHR 0xC8, CHR 0xE8), (CHR 0xC9, CHR 0xE9), (CHR 0xCA, CHR 0xEA), (CHR 0xCB, CHR 0xEB),
      (CHR 0xCC, CHR 0xEC), (CHR 0xCD, CHR 0xED), (CHR 0xCE, CHR 0xEE), (CHR 0xCF, CHR 0xEF),
      (CHR 0xD0, CHR 0xF0), (CHR 0xD1, CHR 0xF1), (CHR 0xD2, CHR 0xF2), (CHR 0xD3, CHR 0xF3),
      (CHR 0xD4, CHR 0xF4), (CHR 0xD5, CHR 0xF5), (CHR 0xD6, CHR 0xF6), (CHR 0xD8, CHR 0xF8),
      (CHR 0xD9, CHR 0xF9), (CHR 0xDA, CHR 0xFA), (CHR 0xDB, CHR 0xFB), (CHR 0xDC, CHR 0xFC),
      (CHR 0xDD, CHR 0xFD), (CHR 0xDE, CHR 0xFE)]"

definition lower_char :: "char \<Rightarrow> char" where
  "lower_char c = (case map_of lower_table c of Some l \<Rightarrow> l | None \<Rightarrow> c)"

definition py_lower :: "string \<Rightarrow> string" where
  "py_lower s = map lower_char s"

text \<open>\<open>str(n)\<close> for an integer: decimal digits, a minus sign when negative.\<close>

fun digits :: "nat \<Rightarrow> string" where
  "digits n = (if n < 10 then [''0123456789'' ! n]
               else digits (n div 10) @ [''0123456789'' ! (n mod 10)])"

definition py_str_int :: "int \<Rightarrow> string" where
  "py_str_int i = (if i < 0 then ''-'' @ digits (nat (- i)) else digits (nat i))"

text \<open>
  The numerals of \<open>int(s)\<close> in base 10: white space around the numeral is dropped, one
  sign is allowed, the digits may be grouped by single underscores. \<open>None\<close>: the text is
  not such a numeral.
\<close>

definition int_space :: "char \<Rightarrow> bool" where
  "int_space c = (c \<in> set [CHR 0x09, CHR 0x0A, CHR 0x0B, CHR 0x0C, CHR 0x0D, CHR 0x20,
     CHR 0x85, CHR 0xA0])"

definition digit_val :: "char \<Rightarrow> int option" where
  "digit_val c = map_of (zip ''0123456789'' [0, 1, 2, 3, 4, 5, 6, 7, 8, 9]) c"

text \<open>
  \<open>parse_digits after_digit val cs\<close>: \<open>after_digit\<close> says that the character before
  \<open>cs\<close> was a digit (an underscore is legal only there, and the numeral must end there).
\<close>

fun parse_digits :: "bool \<Rightarrow> int \<Rightarrow> string \<Rightarrow> int option" where
  "parse_digits after_digit val [] = (if after_digit then Some val else None)"
| "parse_digits after_digit val (c # cs) =
     (case digit_val c of
        Some d \<Rightarrow> parse_digits True (val * 10 + d) cs
      | None \<Rightarrow> if c = CHR ''_'' \<and> after_digit then parse_digits False val cs else None)"

definition int_literal :: "string \<Rightarrow> int option" where
  "int_literal s =
     (case rev (dropWhile int_space (rev (dropWhile int_space s))) of
        [] \<Rightarrow> None
      | c # cs \<Rightarrow>
          if c = CHR ''+'' then parse_digits False 0 cs
          else if c = CHR ''-'' then map_option uminus (parse_digits False 0 cs)
          else parse_digits False 0 (c # cs))"

text \<open>
  \<open>int(s)\<close>: \<open>None\<close> stands for \<open>ValueError\<close>, raised for a text that is not a numeral
  and for one with more decimal digits than \<open>sys.get_int_max_str_digits()\<close> allows, 4300
  unless the interpreter is told otherwise (main.py leaves it alone). Leading zeros count,
  signs, underscores and white space do not.
\<close>

definition int_max_str_digits :: nat where
  "int_max_str_digits = 4300"

definition py_int :: "string \<Rightarrow> int option" where
  "py_int s =
     (if int_max_str_digits < length (filter (\<lambda>c. c \<in> set ''0123456789'') s) then None
      else int_literal s)"

section \<open>The collaborators: console, speech engine, recogniser, model\<close>

text \<open>
  Every call of the program to its surroundings is recorded or scripted in a \<open>world\<close>:
  \<open>stdin\<close> holds the lines \<open>input\<close> will read, \<open>mic\<close> the outcomes of the coming calls of
  \<open>recognize_google\<close>, \<open>llm\<close> the coming completions of the model, and \<open>out\<close> what the
  program has printed, said and sent so far, oldest first. The construction of the
  engine, the recogniser and the chains in \<open>__init__\<close> is not part of the model.
\<close>

datatype sr_exception = UnknownValueError | RequestError | OtherException

datatype recognition = Transcript string | Raises sr_exception

datatype event =
    Printed string
  | Said string
  | Prompted string
  | Question_chain string int string
  | Feedback_chain string string string

record world =
  stdin :: "string list"
  mic :: "recognition list"
  llm :: "string list"
  out :: "event list"

text \<open>
  A call returns a value and the world it leaves, or raises an exception that main.py
  does not catch, or is \<open>Starved\<close>: the script has nothing left for it (the call blocks,
  or \<open>input\<close> raises \<open>EOFError\<close> at the end of the file), so it returns nothing.
\<close>

datatype 'a result = Returned 'a world | Raised sr_exception | Starved

definition emit :: "event list \<Rightarrow> world \<Rightarrow> world" where
  "emit es w = w\<lparr>out := out w @ es\<rparr>"

definition speak :: "string \<Rightarrow> world \<Rightarrow> world" where
  "speak text w = emit [Printed text, Said text] w"

definition py_input :: "world \<Rightarrow> string result" where
  "py_input w =
     (case stdin w of
        [] \<Rightarrow> Starved
      | line # rest \<Rightarrow> Returned line (w\<lparr>stdin := rest\<rparr>))"

definition py_input_prompt :: "string \<Rightarrow> world \<Rightarrow> string result" where
  "py_input_prompt prompt w = py_input (emit [Prompted prompt] w)"

definition listen :: "world \<Rightarrow> string option result" where
  "listen w =
     (let w1 = emit [Printed ''Listening...''] w in
      case mic w1 of
        [] \<Rightarrow> Starved
      | r # rest \<Rightarrow>
          (let w2 = emit [Printed ''Recognizing...''] (w1\<lparr>mic := rest\<rparr>) in
           case r of
             Transcript text \<Rightarrow> Returned (Some text) (emit [Printed (''You said: '' @ text)] w2)
           | Raises UnknownValueError \<Rightarrow>
               Returned None (emit [Printed ''Sorry, I didn't understand that.''] w2)
           | Raises RequestError \<Rightarrow>
               Returned None (emit [Printed
                 ''Sorry, I'm having trouble accessing the speech recognition service.''] w2)
           | Raises OtherException \<Rightarrow> Raised OtherException))"

section \<open>get_user_answer\<close>

text \<open>Python's truth value of what \<open>listen\<close> returned: \<open>None\<close> and \<open>""\<close> are false.\<close>

definition truthy :: "string option \<Rightarrow> bool" where
  "truthy user_input = (case user_input of None \<Rightarrow> False | Some text \<Rightarrow> text \<noteq> [])"

definition max_silence :: nat where
  "max_silence = 3"

definition confirm_prompt :: string where
  "confirm_prompt = ''Are you finished with your answer? If so, wait. If not, continue speaking.''"

text \<open>One pass through the body of the \<open>while silence_count < max_silence\<close> loop.\<close>

definition voice_iteration :: "string list \<Rightarrow> nat \<Rightarrow> world \<Rightarrow> (string list \<times> nat) result" where
  "voice_iteration answer_parts silence_count w =
     (case listen w of
        Starved \<Rightarrow> Starved
      | Raised e \<Rightarrow> Raised e
      | Returned user_input w1 \<Rightarrow>
          if truthy user_input then Returned (answer_parts @ [the user_input], 0) w1
          else
            (let silence_count' = silence_count + 1 in
             if silence_count' = 1 then Returned (answer_parts, silence_count') (speak confirm_prompt w1)
             else Returned (answer_parts, silence_count') w1))"

function voice_loop :: "string list \<Rightarrow> nat \<Rightarrow> world \<Rightarrow> string list result" where
  "voice_loop answer_parts silence_count w =
     (if silence_count < max_silence then
        (case voice_iteration answer_parts silence_count w of
           Starved \<Rightarrow> Starved
         | Raised e \<Rightarrow> Raised e
         | Returned (answer_parts', silence_count') w' \<Rightarrow>
             voice_loop answer_parts' silence_count' w')
      else Returned answer_parts w)"
  by pat_completeness auto

lemma listen_mic:
  "listen w = Returned u w' \<Longrightarrow> mic w = hd (mic w) # mic w'"
  by (auto simp: listen_def emit_def Let_def
      split: list.splits recognition.splits sr_exception.splits)

lemma voice_iteration_mic:
  "voice_iteration ps sc w = Returned r w' \<Longrightarrow> mic w = hd (mic w) # mic w'"
  by (auto simp: voice_iteration_def speak_def emit_def Let_def
      split: result.splits if_splits dest: listen_mic)

termination voice_loop
proof (relation "measure (\<lambda>(ps, sc, w). length (mic w))")
  show "wf (measure (\<lambda>(ps, sc, w). length (mic w)))" by simp
next
  fix answer_parts :: "string list" and silence_count :: nat and w :: world
    and x31 :: "string list \<times> nat" and w' :: world and ps' :: "string list" and sc' :: nat
  assume "voice_iteration answer_parts silence_count w = Returned x31 w'"
  then have "mic w = hd (mic w) # mic w'" by (rule voice_iteration_mic)
  then have "length (mic w') < length (mic w)"
    by (metis length_Cons lessI)
  then show "((ps', sc', w'), answer_parts, silence_count, w)
      \<in> measure (\<lambda>(ps, sc, w). length (mic w))" by simp
qed

declare voice_loop.simps [simp del]

function text_loop :: "string list \<Rightarrow> world \<Rightarrow> string list result" where
  "text_loop answer_lines w =
     (case py_input w of
        Starved \<Rightarrow> Starved
      | Raised e \<Rightarrow> Raised e
      | Returned line w1 \<Rightarrow>
          if py_strip line = [] then
            (if answer_lines = [] then text_loop answer_lines w1
             else Returned answer_lines w1)
          else text_loop (answer_lines @ [line]) w1)"
  by pat_completeness auto

lemma py_input_stdin:
  "py_input w = Returned line w' \<Longrightarrow> stdin w = line # stdin w'"
  by (auto simp: py_input_def split: list.splits)

termination text_loop
proof (relation "measure (\<lambda>(ls, w). length (stdin w))")
  show "wf (measure (\<lambda>(ls, w). length (stdin w)))" by simp
next
  fix answer_lines :: "string list" and w w1 :: world and line :: string
  assume "py_input w = Returned line w1"
  then have "stdin w = line # stdin w1" by (rule py_input_stdin)
  then show "((answer_lines, w1), answer_lines, w) \<in> measure (\<lambda>(ls, w). length (stdin w))"
    by simp
next
  fix answer_lines :: "string list" and w w1 :: world and line :: string
  assume "py_input w = Returned line w1"
  then have "stdin w = line # stdin w1" by (rule py_input_stdin)
  then show "((answer_lines @ [line], w1), answer_lines, w)
      \<in> measure (\<lambda>(ls, w). length (stdin w))"
    by simp
qed

declare text_loop.simps [simp del]

definition voice_banner :: string where
  "voice_banner = ''Please provide your answer. When you're finished, remain silent for a moment.''"

definition no_answer :: string where
  "no_answer = ''No answer provided.''"

definition text_banner :: string where
  "text_banner = ''Type your answer below (press Enter twice when finished):''"

definition get_user_answer :: "bool \<Rightarrow> world \<Rightarrow> string result" where
  "get_user_answer use_voice w =
     (if use_voice then
        (case voice_loop [] 0 (speak voice_banner w) of
           Starved \<Rightarrow> Starved
         | Raised e \<Rightarrow> Raised e
         | Returned answer_parts w' \<Rightarrow>
             Returned (if answer_parts \<noteq> [] then py_join '' '' answer_parts else no_answer) w')
      else
        (case text_loop [] (emit [Printed text_banner] w) of
           Starved \<Rightarrow> Starved
         | Raised e \<Rightarrow> Raised e
         | Returned answer_lines w' \<Rightarrow> Returned (py_join NL answer_lines) w'))"

subsection \<open>What the two loops read and leave\<close>

text \<open>
  \<open>spoken r\<close> is what one outcome of the recogniser adds to \<open>answer_parts\<close>;
  \<open>apology r\<close> is the line \<open>listen\<close> prints last for it.
\<close>

lemma speak_frame [simp]:
  "stdin (speak t w) = stdin w" "mic (speak t w) = mic w" "llm (speak t w) = llm w"
  "out (speak t w) = out w @ [Printed t, Said t]"
  by (simp_all add: speak_def emit_def)

lemma emit_frame [simp]:
  "stdin (emit es w) = stdin w" "mic (emit es w) = mic w" "llm (emit es w) = llm w"
  "out (emit es w) = out w @ es"
  by (simp_all add: emit_def)

definition spoken :: "recognition \<Rightarrow> string list" where
  "spoken r = (case r of Transcript text \<Rightarrow> (if text \<noteq> [] then [text] else []) | Raises e \<Rightarrow> [])"

definition apology :: "recognition \<Rightarrow> string" where
  "apology r = (case r of
      Transcript t \<Rightarrow> ''You said: '' @ t
    | Raises UnknownValueError \<Rightarrow> ''Sorry, I didn't understand that.''
    | Raises RequestError \<Rightarrow> ''Sorry, I'm having trouble accessing the speech recognition service.''
    | Raises OtherException \<Rightarrow> [])"

lemma text_loop_Nil: "stdin w = [] \<Longrightarrow> text_loop acc w = Starved"
  by (subst text_loop.simps) (simp add: py_input_def)

lemma text_loop_Cons:
  "stdin w = l # ls \<Longrightarrow> text_loop acc w =
     (if py_strip l = [] then
        (if acc = [] then text_loop acc (w\<lparr>stdin := ls\<rparr>) else Returned acc (w\<lparr>stdin := ls\<rparr>))
      else text_loop (acc @ [l]) (w\<lparr>stdin := ls\<rparr>))"
  by (subst text_loop.simps) (simp add: py_input_def)

lemma text_loop_frame:
  "text_loop acc w = Returned r w' \<Longrightarrow>
     (\<exists>used. stdin w = used @ stdin w' \<and> used \<noteq> [] \<and> py_strip (last used) = [] \<and>
        r = acc @ filter (\<lambda>l. py_strip l \<noteq> []) used) \<and>
     r \<noteq> [] \<and> mic w' = mic w \<and> llm w' = llm w \<and> out w' = out w"
proof (induction acc w rule: text_loop.induct)
  case (1 acc w)
  show ?case
  proof (cases "stdin w")
    case Nil
    with "1.prems" show ?thesis by (simp add: text_loop_Nil[OF Nil])
  next
    case (Cons l ls)
    have inp: "py_input w = Returned l (w\<lparr>stdin := ls\<rparr>)"
      using Cons by (simp add: py_input_def)
    show ?thesis
    proof (cases "py_strip l = []")
      case blank: True
      show ?thesis
      proof (cases "acc = []")
        case True
        with blank "1.prems" have "text_loop acc (w\<lparr>stdin := ls\<rparr>) = Returned r w'"
          by (simp add: text_loop_Cons[OF Cons])
        from "1.IH"(1)[OF inp blank True this] obtain used where
          u: "ls = used @ stdin w'" "used \<noteq> []" "py_strip (last used) = []"
             "r = acc @ filter (\<lambda>l. py_strip l \<noteq> []) used"
          and rest: "r \<noteq> []" "mic w' = mic w" "llm w' = llm w" "out w' = out w"
          by auto
        have "stdin w = (l # used) @ stdin w'" using Cons u by simp
        moreover have "r = acc @ filter (\<lambda>l. py_strip l \<noteq> []) (l # used)" using u blank by simp
        moreover have "py_strip (last (l # used)) = []" using u by simp
        ultimately show ?thesis using rest by blast
      next
        case False
        with blank "1.prems" have "r = acc" "w' = w\<lparr>stdin := ls\<rparr>"
          by (simp_all add: text_loop_Cons[OF Cons])
        then have "stdin w = [l] @ stdin w'" "r = acc @ filter (\<lambda>l. py_strip l \<noteq> []) [l]"
          using Cons blank by simp_all
        moreover have "[l] \<noteq> []" "py_strip (last [l]) = []" using blank by simp_all
        ultimately show ?thesis using False \<open>r = acc\<close> \<open>w' = w\<lparr>stdin := ls\<rparr>\<close> by simp
      qed
    next
      case False
      with "1.prems" have "text_loop (acc @ [l]) (w\<lparr>stdin := ls\<rparr>) = Returned r w'"
        by (simp add: text_loop_Cons[OF Cons])
      from "1.IH"(2)[OF inp False this] obtain used where
        u: "ls = used @ stdin w'" "used \<noteq> []" "py_strip (last used) = []"
           "r = (acc @ [l]) @ filter (\<lambda>l. py_strip l \<noteq> []) used"
        and rest: "r \<noteq> []" "mic w' = mic w" "llm w' = llm w" "out w' = out w"
        by auto
      have "stdin w = (l # used) @ stdin w'" using Cons u by simp
      moreover have "r = acc @ filter (\<lambda>l. py_strip l \<noteq> []) (l # used)" using u False by simp
      moreover have "py_strip (last (l # used)) = []" using u by simp
      ultimately show ?thesis using rest by blast
    qed
  qed
qed


lemma voice_loop_done: "\<not> sc < max_silence \<Longrightarrow> voice_loop ps sc w = Returned ps w"
  by (subst voice_loop.simps) simp

lemma voice_loop_step:
  "sc < max_silence \<Longrightarrow> voice_loop ps sc w =
     (case voice_iteration ps sc w of
        Starved \<Rightarrow> Starved
      | Raised e \<Rightarrow> Raised e
      | Returned (ps', sc') w' \<Rightarrow> voice_loop ps' sc' w')"
  by (subst voice_loop.simps) simp

lemma voice_iteration_Nil: "mic w = [] \<Longrightarrow> voice_iteration ps sc w = Starved"
  by (simp add: voice_iteration_def listen_def Let_def)

lemma voice_iteration_other:
  "mic w = Raises OtherException # rest \<Longrightarrow> voice_iteration ps sc w = Raised OtherException"
  by (simp add: voice_iteration_def listen_def Let_def)

lemma voice_iteration_heard:
  "mic w = Transcript t # rest \<Longrightarrow> t \<noteq> [] \<Longrightarrow>
   voice_iteration ps sc w = Returned (ps @ [t], 0)
     (w\<lparr>mic := rest, out := out w @ [Printed ''Listening...'', Printed ''Recognizing...'',
        Printed (''You said: '' @ t)]\<rparr>)"
  by (simp add: voice_iteration_def listen_def Let_def truthy_def emit_def)

lemma voice_iteration_silent:
  "mic w = r # rest \<Longrightarrow> r \<noteq> Raises OtherException \<Longrightarrow> spoken r = [] \<Longrightarrow>
   voice_iteration ps sc w = Returned (ps, Suc sc)
     (w\<lparr>mic := rest, out := out w @ [Printed ''Listening...'', Printed ''Recognizing...'',
        Printed (apology r)] @
        (if sc = 0 then [Printed confirm_prompt, Said confirm_prompt] else [])\<rparr>)"
  by (cases r rule: recognition.exhaust; (cases "case r of Raises e \<Rightarrow> e" rule: sr_exception.exhaust)?)
     (auto simp: voice_iteration_def listen_def Let_def truthy_def emit_def speak_def spoken_def
        apology_def split: if_splits sr_exception.splits)

lemma voice_loop_frame:
  "voice_loop ps sc w = Returned r w' \<Longrightarrow>
     (\<exists>used. mic w = used @ mic w' \<and> r = ps @ concat (map spoken used)) \<and>
     (\<exists>evs. out w' = out w @ evs) \<and> stdin w' = stdin w \<and> llm w' = llm w"
proof (induction ps sc w rule: voice_loop.induct)
  case (1 ps sc w)
  show ?case
  proof (cases "sc < max_silence")
    case False
    with "1.prems" have "r = ps" "w' = w" by (simp_all add: voice_loop_done)
    then have "mic w = [] @ mic w' \<and> r = ps @ concat (map spoken [])" by simp
    then show ?thesis using \<open>w' = w\<close> by blast
  next
    case True
    note step = voice_loop_step[OF True, of ps w]
    show ?thesis
    proof (cases "mic w")
      case Nil
      with "1.prems" step show ?thesis by (simp add: voice_iteration_Nil)
    next
      case (Cons x rest)
      show ?thesis
      proof (cases "x = Raises OtherException")
        case True
        with Cons "1.prems" step show ?thesis by (simp add: voice_iteration_other)
      next
        case caught: False
        show ?thesis
        proof (cases "spoken x = []")
          case sil: True
          let ?w1 = "w\<lparr>mic := rest, out := out w @ [Printed ''Listening...'', Printed ''Recognizing...'',
            Printed (apology x)] @ (if sc = 0 then [Printed confirm_prompt, Said confirm_prompt] else [])\<rparr>"
          have it: "voice_iteration ps sc w = Returned (ps, Suc sc) ?w1"
            by (rule voice_iteration_silent[OF Cons caught sil])
          with "1.prems" step have "voice_loop ps (Suc sc) ?w1 = Returned r w'" by simp
          from "1.IH"[OF True it refl this] obtain used evs where
            "mic ?w1 = used @ mic w'" "r = ps @ concat (map spoken used)"
            "out w' = out ?w1 @ evs" "stdin w' = stdin ?w1" "llm w' = llm ?w1"
            by blast
          then have "mic w = (x # used) @ mic w'" "r = ps @ concat (map spoken (x # used))"
            "\<exists>evs. out w' = out w @ evs" "stdin w' = stdin w" "llm w' = llm w"
            using Cons sil by simp_all
          then show ?thesis by blast
        next
          case heard: False
          then obtain t where x: "x = Transcript t" "t \<noteq> []" "spoken x = [t]"
            by (cases x) (auto simp: spoken_def split: if_splits)
          let ?w1 = "w\<lparr>mic := rest, out := out w @ [Printed ''Listening...'', Printed ''Recognizing...'',
            Printed (''You said: '' @ t)]\<rparr>"
          have it: "voice_iteration ps sc w = Returned (ps @ [t], 0) ?w1"
            using voice_iteration_heard[of w t rest ps sc] Cons x by simp
          with "1.prems" step have "voice_loop (ps @ [t]) 0 ?w1 = Returned r w'" by simp
          from "1.IH"[OF True it refl this] obtain used evs where
            "mic ?w1 = used @ mic w'" "r = (ps @ [t]) @ concat (map spoken used)"
            "out w' = out ?w1 @ evs" "stdin w' = stdin ?w1" "llm w' = llm ?w1"
            by blast
          then have "mic w = (x # used) @ mic w'" "r = ps @ concat (map spoken (x # used))"
            "\<exists>evs. out w' = out w @ evs" "stdin w' = stdin w" "llm w' = llm w"
            using Cons x by simp_all
          then show ?thesis by blast
        qed
      qed
    qed
  qed
qed

lemma get_user_answer_frame:
  assumes "get_user_answer uv w = Returned a w'"
  shows "length (stdin w') \<le> length (stdin w)" "llm w' = llm w" "\<exists>evs. out w' = out w @ evs"
proof -
  have "length (stdin w') \<le> length (stdin w) \<and> llm w' = llm w \<and> (\<exists>evs. out w' = out w @ evs)"
  proof (cases uv)
    case True
    with assms obtain ps where
      "voice_loop [] 0 (speak voice_banner w) = Returned ps w'"
      by (auto simp: get_user_answer_def split: result.splits)
    from voice_loop_frame[OF this] show ?thesis by auto
  next
    case False
    with assms obtain ls where
      "text_loop [] (emit [Printed text_banner] w) = Returned ls w'"
      by (auto simp: get_user_answer_def split: result.splits)
    from text_loop_frame[OF this] show ?thesis by auto
  qed
  then show "length (stdin w') \<le> length (stdin w)" "llm w' = llm w" "\<exists>evs. out w' = out w @ evs"
    by blast+
qed

section \<open>run_interview_session\<close>

text \<open>The local variables of \<open>run_interview_session\<close> that live across the rounds.\<close>

record session =
  job_topic :: string
  use_voice :: bool
  questions_per_round :: int
  question_number :: int
  previous_questions :: "string list"

text \<open>The test \<open>x.lower() in ["yes", "y"]\<close>, applied to both yes/no answers.\<close>

definition affirmative :: "string \<Rightarrow> bool" where
  "affirmative x = (py_lower x \<in> set [''yes'', ''y''])"

text \<open>The \<open>while True\<close> loop that reads \<open>questions_per_round\<close>.\<close>

definition count_prompt :: string where
  "count_prompt = ''How many questions per round? ''"

definition not_a_number :: string where
  "not_a_number = ''Please enter a valid number.''"

definition not_positive :: string where
  "not_positive = ''Please enter a positive number.''"

function ask_questions_per_round :: "world \<Rightarrow> int result" where
  "ask_questions_per_round w =
     (case py_input_prompt count_prompt w of
        Starved \<Rightarrow> Starved
      | Raised e \<Rightarrow> Raised e
      | Returned line w1 \<Rightarrow>
          (case py_int line of
             None \<Rightarrow> ask_questions_per_round (speak not_a_number w1)
           | Some n \<Rightarrow>
               if n > 0 then Returned n w1
               else ask_questions_per_round (speak not_positive w1)))"
  by pat_completeness auto

lemma py_input_prompt_stdin:
  "py_input_prompt p w = Returned line w' \<Longrightarrow> stdin w = line # stdin w'"
  by (auto simp: py_input_prompt_def py_input_def emit_def split: list.splits)

termination ask_questions_per_round
proof (relation "measure (\<lambda>w. length (stdin w))")
  show "wf (measure (\<lambda>w. length (stdin w)))" by simp
next
  fix w w1 :: world and line :: string
  assume "py_input_prompt count_prompt w = Returned line w1"
  then have "stdin w = line # stdin w1" by (rule py_input_prompt_stdin)
  then show "(speak not_a_number w1, w) \<in> measure (\<lambda>w. length (stdin w))"
    by simp
next
  fix w w1 :: world and line :: string
  assume "py_input_prompt count_prompt w = Returned line w1"
  then have "stdin w = line # stdin w1" by (rule py_input_prompt_stdin)
  then show "(speak not_positive w1, w) \<in> measure (\<lambda>w. length (stdin w))"
    by simp
qed

declare ask_questions_per_round.simps [simp del]

text \<open>
  \<open>chain.invoke(request)\<close>: the request is recorded, the next completion of the model
  is the value; a fault of the model or of the network is not modelled. The text the
  question chain makes of its request is \<open>question_chain_prompt\<close>, in the last section.
\<close>

definition invoke :: "event \<Rightarrow> world \<Rightarrow> string result" where
  "invoke request w =
     (case llm w of
        [] \<Rightarrow> Starved
      | completion # rest \<Rightarrow> Returned completion (emit [request] (w\<lparr>llm := rest\<rparr>)))"

definition format_previous_questions :: "string list \<Rightarrow> string" where
  "format_previous_questions qs =
     (if qs \<noteq> [] then py_join NL (map (\<lambda>q. ''- '' @ q) qs) else ''None yet.'')"

text \<open>The body of \<open>for i in range(questions_per_round)\<close>: one question, answer and feedback.\<close>

definition ask_question :: "session \<Rightarrow> world \<Rightarrow> session result" where
  "ask_question s w =
     (let w1 = emit [Printed (NL @ replicate 60 (CHR ''=''))] w;
          prev_questions_formatted = format_previous_questions (previous_questions s)
      in
      case invoke (Question_chain (job_topic s) (question_number s) prev_questions_formatted) w1 of
        Starved \<Rightarrow> Starved
      | Raised e \<Rightarrow> Raised e
      | Returned interview_question w2 \<Rightarrow>
          (let s1 = s\<lparr>previous_questions := previous_questions s @ [interview_question]\<rparr>;
               w3 = speak interview_question
                      (speak (''Question '' @ py_str_int (question_number s) @ '':'') w2)
           in
           case get_user_answer (use_voice s) w3 of
             Starved \<Rightarrow> Starved
           | Raised e \<Rightarrow> Raised e
           | Returned user_answer w4 \<Rightarrow>
               (case invoke (Feedback_chain (job_topic s) interview_question user_answer)
                       (speak ''Analyzing your answer...'' w4) of
                  Starved \<Rightarrow> Starved
                | Raised e \<Rightarrow> Raised e
                | Returned feedback w5 \<Rightarrow>
                    Returned (s1\<lparr>question_number := question_number s + 1\<rparr>)
                      (speak feedback (speak ''Here's your feedback:'' w5)))))"

fun round_loop :: "nat \<Rightarrow> session \<Rightarrow> world \<Rightarrow> session result" where
  "round_loop 0 s w = Returned s w"
| "round_loop (Suc i) s w =
     (case ask_question s w of
        Starved \<Rightarrow> Starved
      | Raised e \<Rightarrow> Raised e
      | Returned s' w' \<Rightarrow> round_loop i s' w')"

text \<open>The question after a round: the value is the new \<open>continue_practice\<close>.\<close>

definition continue_question :: string where
  "continue_question =
     ''Would you like to continue with another round of questions? Say yes or no.''"

definition continue_prompt :: string where
  "continue_prompt = NL @ ''Continue with another round? (yes/no): ''"

definition round_decision :: "world \<Rightarrow> bool result" where
  "round_decision w =
     (case py_input_prompt continue_prompt (speak continue_question w) of
        Starved \<Rightarrow> Starved
      | Raised e \<Rightarrow> Raised e
      | Returned continue_input w' \<Rightarrow> Returned (affirmative continue_input) w')"

function practice_loop :: "session \<Rightarrow> world \<Rightarrow> session result" where
  "practice_loop s w =
     (case round_loop (nat (questions_per_round s)) s w of
        Starved \<Rightarrow> Starved
      | Raised e \<Rightarrow> Raised e
      | Returned s1 w1 \<Rightarrow>
          (case round_decision w1 of
             Starved \<Rightarrow> Starved
           | Raised e \<Rightarrow> Raised e
           | Returned continue_practice w2 \<Rightarrow>
               if continue_practice then practice_loop s1 w2 else Returned s1 w2))"
  by pat_completeness auto

lemma invoke_frame:
  "invoke req w = Returned c w' \<Longrightarrow>
     llm w = c # llm w' \<and> stdin w' = stdin w \<and> mic w' = mic w \<and> out w' = out w @ [req]"
  by (auto simp: invoke_def split: list.splits)

lemma ask_question_frame:
  assumes "ask_question s w = Returned s' w'"
  shows "length (stdin w') \<le> length (stdin w)"
    and "\<exists>q f. llm w = q # f # llm w' \<and> previous_questions s' = previous_questions s @ [q]"
    and "question_number s' = question_number s + 1"
    and "job_topic s' = job_topic s" "use_voice s' = use_voice s"
        "questions_per_round s' = questions_per_round s"
proof -
  from assms obtain q w2 a w4 f w5 where
    q: "invoke (Question_chain (job_topic s) (question_number s)
          (format_previous_questions (previous_questions s)))
          (emit [Printed (NL @ replicate 60 (CHR ''=''))] w) = Returned q w2"
    and a: "get_user_answer (use_voice s)
          (speak q (speak (''Question '' @ py_str_int (question_number s) @ '':'') w2)) = Returned a w4"
    and f: "invoke (Feedback_chain (job_topic s) q a) (speak ''Analyzing your answer...'' w4)
          = Returned f w5"
    and s': "s' = s\<lparr>previous_questions := previous_questions s @ [q],
                     question_number := question_number s + 1\<rparr>"
    and w': "w' = speak f (speak ''Here's your feedback:'' w5)"
    by (auto simp: ask_question_def Let_def split: result.splits)
  note fq = invoke_frame[OF q] and fa = get_user_answer_frame[OF a] and ff = invoke_frame[OF f]
  show "length (stdin w') \<le> length (stdin w)" using fq fa ff w' by simp
  show "\<exists>q f. llm w = q # f # llm w' \<and> previous_questions s' = previous_questions s @ [q]"
    using fq fa ff w' s' by simp
  show "question_number s' = question_number s + 1" "job_topic s' = job_topic s"
    "use_voice s' = use_voice s" "questions_per_round s' = questions_per_round s"
    using s' by simp_all
qed

lemma round_loop_stdin:
  "round_loop n s w = Returned s' w' \<Longrightarrow> length (stdin w') \<le> length (stdin w)"
proof (induction n arbitrary: s w)
  case 0
  then show ?case by simp
next
  case (Suc n)
  from Suc.prems obtain s1 w1 where
    1: "ask_question s w = Returned s1 w1" and 2: "round_loop n s1 w1 = Returned s' w'"
    by (auto split: result.splits)
  from ask_question_frame(1)[OF 1] Suc.IH[OF 2] show ?case by simp
qed

lemma round_decision_stdin:
  "round_decision w = Returned b w' \<Longrightarrow> length (stdin w') < length (stdin w)"
  by (auto simp: round_decision_def split: result.splits dest!: py_input_prompt_stdin)

termination practice_loop
proof (relation "measure (\<lambda>(s, w). length (stdin w))")
  show "wf (measure (\<lambda>(s, w). length (stdin w)))" by simp
next
  fix s s1 :: session and w w1 w2 :: world and continue_practice :: bool
  assume "round_loop (nat (questions_per_round s)) s w = Returned s1 w1"
    and "round_decision w1 = Returned continue_practice w2"
  then have "length (stdin w2) < length (stdin w)"
    using round_loop_stdin round_decision_stdin by fastforce
  then show "((s1, w2), s, w) \<in> measure (\<lambda>(s, w). length (stdin w))" by simp
qed

declare practice_loop.simps [simp del]

text \<open>
  The start of \<open>run_interview_session\<close>, up to the first round: the topic, the voice
  preference and the number of questions are read, the counters are set.
\<close>

definition configure :: "world \<Rightarrow> session result" where
  "configure w =
     (let w1 = speak ''Welcome to InterviewMate Practice System!'' w;
          w2 = speak ''Enter the job topic you want to practice for. For example, Software Engineering, Marketing, or Data Science.'' w1
      in
      case py_input_prompt ''Enter job topic: '' w2 of
        Starved \<Rightarrow> Starved
      | Raised e \<Rightarrow> Raised e
      | Returned topic w3 \<Rightarrow>
          (case py_input_prompt ''Use voice input for answers? (yes/no): ''
                  (speak ''Would you like to use voice input for your answers? Say yes or no.'' w3) of
             Starved \<Rightarrow> Starved
           | Raised e \<Rightarrow> Raised e
           | Returned voice_preference w4 \<Rightarrow>
               (case ask_questions_per_round
                       (speak ''How many questions would you like to practice per round?'' w4) of
                  Starved \<Rightarrow> Starved
                | Raised e \<Rightarrow> Raised e
                | Returned n w5 \<Rightarrow>
                    Returned \<lparr>job_topic = topic, use_voice = affirmative voice_preference,
                       questions_per_round = n, question_number = 1,
                       previous_questions = []\<rparr> w5)))"

definition closing :: string where
  "closing = ''Thank you for using InterviewMate Practice System. Good luck with your interviews!''"

definition run_interview_session :: "world \<Rightarrow> session result" where
  "run_interview_session w =
     (case configure w of
        Starved \<Rightarrow> Starved
      | Raised e \<Rightarrow> Raised e
      | Returned s w1 \<Rightarrow>
          (case practice_loop s w1 of
             Starved \<Rightarrow> Starved
           | Raised e \<Rightarrow> Raised e
           | Returned s' w2 \<Rightarrow> Returned s' (speak closing w2)))"

section \<open>The answer typed at the console\<close>

lemma py_strip_Nil_iff: "py_strip s = [] \<longleftrightarrow> (\<forall>c\<in>set s. py_isspace c)"
proof
  assume a: "py_strip s = []"
  have "dropWhile py_isspace s = []"
  proof (rule ccontr)
    assume ne: "dropWhile py_isspace s \<noteq> []"
    then have "\<not> py_isspace (hd (dropWhile py_isspace s))" by (rule hd_dropWhile)
    moreover have "hd (dropWhile py_isspace s) \<in> set (dropWhile py_isspace s)"
      using ne by (rule hd_in_set)
    moreover from a have "\<forall>x\<in>set (dropWhile py_isspace s). py_isspace x"
      unfolding py_strip_def by simp
    ultimately show False by blast
  qed
  then show "\<forall>c\<in>set s. py_isspace c" by simp
next
  assume "\<forall>c\<in>set s. py_isspace c"
  then have "\<forall>x\<in>set (dropWhile py_isspace s). py_isspace x"
    by (blast dest: set_dropWhileD)
  then show "py_strip s = []" by (simp add: py_strip_def)
qed

lemma set_py_join: "x \<in> set xs \<Longrightarrow> set x \<subseteq> set (py_join sep xs)"
  by (induction sep xs rule: py_join.induct) auto

lemma text_loop_skip:
  "stdin w = bs @ rest \<Longrightarrow> \<forall>b\<in>set bs. py_strip b = [] \<Longrightarrow>
   text_loop [] w = text_loop [] (w\<lparr>stdin := rest\<rparr>)"
proof (induction bs arbitrary: w)
  case Nil
  then have "w\<lparr>stdin := rest\<rparr> = w" by simp
  then show ?case by simp
next
  case (Cons b bs)
  from Cons.prems have st: "stdin w = b # (bs @ rest)" and b: "py_strip b = []" by simp_all
  have "text_loop [] w = text_loop [] (w\<lparr>stdin := bs @ rest\<rparr>)"
    using b by (simp add: text_loop_Cons[OF st])
  also have "\<dots> = text_loop [] (w\<lparr>stdin := bs @ rest\<rparr>\<lparr>stdin := rest\<rparr>)"
    using Cons.prems by (intro Cons.IH) simp_all
  finally show ?case by simp
qed

lemma text_loop_collect:
  "stdin w = cs @ rest \<Longrightarrow> \<forall>c\<in>set cs. py_strip c \<noteq> [] \<Longrightarrow>
   text_loop acc w = text_loop (acc @ cs) (w\<lparr>stdin := rest\<rparr>)"
proof (induction cs arbitrary: w acc)
  case Nil
  then have "w\<lparr>stdin := rest\<rparr> = w" by simp
  then show ?case by simp
next
  case (Cons c cs)
  from Cons.prems have st: "stdin w = c # (cs @ rest)" and c: "py_strip c \<noteq> []" by simp_all
  have "text_loop acc w = text_loop (acc @ [c]) (w\<lparr>stdin := cs @ rest\<rparr>)"
    using c by (simp add: text_loop_Cons[OF st])
  also have "\<dots> = text_loop ((acc @ [c]) @ cs) (w\<lparr>stdin := cs @ rest\<rparr>\<lparr>stdin := rest\<rparr>)"
    using Cons.prems by (intro Cons.IH) simp_all
  finally show ?case by simp
qed

lemma text_loop_end:
  "stdin w = b # rest \<Longrightarrow> py_strip b = [] \<Longrightarrow> acc \<noteq> [] \<Longrightarrow>
   text_loop acc w = Returned acc (w\<lparr>stdin := rest\<rparr>)"
  by (simp add: text_loop_Cons)

lemma text_loop_shape:
  assumes "stdin w = blanks @ ls @ b # rest"
    and "\<forall>l\<in>set blanks. py_strip l = []"
    and "ls \<noteq> []" and "\<forall>l\<in>set ls. py_strip l \<noteq> []"
    and "py_strip b = []"
  shows "text_loop [] w = Returned ls (w\<lparr>stdin := rest\<rparr>)"
proof -
  have "text_loop [] w = text_loop [] (w\<lparr>stdin := ls @ b # rest\<rparr>)"
    using assms(1,2) by (rule text_loop_skip)
  also have "\<dots> = text_loop ([] @ ls) (w\<lparr>stdin := ls @ b # rest\<rparr>\<lparr>stdin := b # rest\<rparr>)"
    using assms(4) by (intro text_loop_collect) simp_all
  also have "\<dots> = Returned ls (w\<lparr>stdin := ls @ b # rest\<rparr>\<lparr>stdin := b # rest\<rparr>\<lparr>stdin := rest\<rparr>)"
    using assms(3,5) by (simp add: text_loop_end)
  finally show ?thesis by simp
qed



lemma text_loop_returns_after_content:
  "stdin w = ls \<Longrightarrow> acc \<noteq> [] \<Longrightarrow> \<exists>b\<in>set ls. py_strip b = [] \<Longrightarrow>
   \<exists>r w'. text_loop acc w = Returned r w'"
proof (induction ls arbitrary: w acc)
  case Nil
  then show ?case by simp
next
  case (Cons l ls)
  show ?case
  proof (cases "py_strip l = []")
    case True
    then show ?thesis using Cons.prems(2) by (simp add: text_loop_Cons[OF Cons.prems(1)])
  next
    case False
    with Cons.prems(3) have "\<exists>b\<in>set ls. py_strip b = []" by auto
    moreover have "stdin (w\<lparr>stdin := ls\<rparr>) = ls" "acc @ [l] \<noteq> []" by simp_all
    ultimately have "\<exists>r w'. text_loop (acc @ [l]) (w\<lparr>stdin := ls\<rparr>) = Returned r w'"
      using Cons.IH by blast
    then show ?thesis using False by (simp add: text_loop_Cons[OF Cons.prems(1)])
  qed
qed

lemma text_loop_returns:
  "stdin w = pre @ x # ls \<Longrightarrow> py_strip x \<noteq> [] \<Longrightarrow> \<exists>b\<in>set ls. py_strip b = [] \<Longrightarrow>
   \<exists>r w'. text_loop acc w = Returned r w'"
proof (induction pre arbitrary: w acc)
  case Nil
  then have st: "stdin w = x # ls" by simp
  have "\<exists>r w'. text_loop (acc @ [x]) (w\<lparr>stdin := ls\<rparr>) = Returned r w'"
    using Nil.prems(3) by (intro text_loop_returns_after_content[of _ ls]) simp_all
  then show ?case using Nil.prems(2) by (simp add: text_loop_Cons[OF st])
next
  case (Cons p pre)
  then have st: "stdin w = p # (pre @ x # ls)" by simp
  have ih: "\<exists>r w'. text_loop acc' (w\<lparr>stdin := pre @ x # ls\<rparr>) = Returned r w'" for acc'
    using Cons.prems(2,3) by (intro Cons.IH) simp_all
  show ?case
    by (cases "py_strip p = []"; cases "acc = []") (simp_all add: text_loop_Cons[OF st] ih)
qed

lemma text_loop_returned_shape:
  "stdin w = ls \<Longrightarrow> text_loop acc w = Returned r w' \<Longrightarrow>
   (\<exists>bs cs b. ls = bs @ cs @ b # stdin w' \<and> (\<forall>l\<in>set bs. py_strip l = []) \<and>
      (\<forall>l\<in>set cs. py_strip l \<noteq> []) \<and> py_strip b = [] \<and> r = acc @ cs \<and>
      (acc \<noteq> [] \<longrightarrow> bs = []))"
proof (induction ls arbitrary: w acc)
  case Nil
  then show ?case by (simp add: text_loop_Nil)
next
  case (Cons l ls)
  note unf = text_loop_Cons[OF Cons.prems(1), of acc]
  have st: "stdin (w\<lparr>stdin := ls\<rparr>) = ls" by simp
  show ?case
  proof (cases "py_strip l = []")
    case blank: True
    show ?thesis
    proof (cases "acc = []")
      case True
      with blank unf Cons.prems(2) have "text_loop acc (w\<lparr>stdin := ls\<rparr>) = Returned r w'" by simp
      from Cons.IH[OF st this] obtain bs cs b where
        "ls = bs @ cs @ b # stdin w'" "\<forall>l\<in>set bs. py_strip l = []"
        "\<forall>l\<in>set cs. py_strip l \<noteq> []" "py_strip b = []" "r = acc @ cs"
        by blast
      then have "l # ls = (l # bs) @ cs @ b # stdin w' \<and> (\<forall>l\<in>set (l # bs). py_strip l = []) \<and>
        (\<forall>l\<in>set cs. py_strip l \<noteq> []) \<and> py_strip b = [] \<and> r = acc @ cs \<and>
        (acc \<noteq> [] \<longrightarrow> l # bs = [])"
        using blank True by simp
      then show ?thesis by (intro exI)
    next
      case False
      with blank unf Cons.prems(2) have "r = acc" "w' = w\<lparr>stdin := ls\<rparr>" by simp_all
      then have "l # ls = [] @ [] @ l # stdin w' \<and> (\<forall>l\<in>set []. py_strip l = []) \<and>
        (\<forall>l\<in>set []. py_strip l \<noteq> []) \<and> py_strip l = [] \<and> r = acc @ [] \<and>
        (acc \<noteq> [] \<longrightarrow> [] = ([]::string list))"
        using blank by simp
      then show ?thesis by (intro exI)
    qed
  next
    case nonblank: False
    with unf Cons.prems(2) have "text_loop (acc @ [l]) (w\<lparr>stdin := ls\<rparr>) = Returned r w'" by simp
    from Cons.IH[OF st this] obtain bs cs b where
      "ls = bs @ cs @ b # stdin w'" "\<forall>l\<in>set cs. py_strip l \<noteq> []" "py_strip b = []"
      "r = (acc @ [l]) @ cs" "acc @ [l] \<noteq> [] \<longrightarrow> bs = []"
      by blast
    then have "l # ls = [] @ (l # cs) @ b # stdin w' \<and> (\<forall>l\<in>set []. py_strip l = []) \<and>
      (\<forall>l\<in>set (l # cs). py_strip l \<noteq> []) \<and> py_strip b = [] \<and> r = acc @ (l # cs) \<and>
      (acc \<noteq> [] \<longrightarrow> [] = ([]::string list))"
      using nonblank by simp
    then show ?thesis by (intro exI)
  qed
qed

lemma get_user_answer_text_shape:
  assumes "get_user_answer False w = Returned a w'"
  shows "\<exists>bs cs b. stdin w = bs @ cs @ b # stdin w' \<and> (\<forall>l\<in>set bs. py_strip l = []) \<and>
      cs \<noteq> [] \<and> (\<forall>l\<in>set cs. py_strip l \<noteq> []) \<and> py_strip b = [] \<and> a = py_join NL cs"
proof -
  from assms obtain r where
    r: "text_loop [] (emit [Printed text_banner] w) = Returned r w'" and a: "a = py_join NL r"
    by (auto simp: get_user_answer_def split: result.splits)
  have "stdin (emit [Printed text_banner] w) = stdin w" by simp
  from text_loop_returned_shape[OF this r] obtain bs cs b where
    "stdin w = bs @ cs @ b # stdin w'" "\<forall>l\<in>set bs. py_strip l = []"
    "\<forall>l\<in>set cs. py_strip l \<noteq> []" "py_strip b = []" "r = [] @ cs"
    by blast
  moreover have "r \<noteq> []" using text_loop_frame[OF r] by simp
  ultimately have "stdin w = bs @ cs @ b # stdin w' \<and> (\<forall>l\<in>set bs. py_strip l = []) \<and>
      cs \<noteq> [] \<and> (\<forall>l\<in>set cs. py_strip l \<noteq> []) \<and> py_strip b = [] \<and> a = py_join NL cs"
    using a by simp
  then show ?thesis by (intro exI)
qed

text \<open>
  C6. In text mode \<open>get_user_answer\<close> returns exactly when the input holds a line that is
  not blank and, somewhere after it, a blank line. On blank lines alone it never returns.
  When it returns it has read the leading blank lines, the lines up to the first blank
  line after the first line that is not blank, and that blank line, nothing more. For the
  lines \<open>""\<close>, \<open>"x"\<close>, \<open>""\<close> the answer is \<open>"x"\<close>.
\<close>

theorem text_answer_returns_iff:
  "((\<exists>a w'. get_user_answer False w = Returned a w') \<longleftrightarrow>
      (\<exists>pre x mid b post. stdin w = pre @ x # mid @ b # post \<and>
         py_strip x \<noteq> [] \<and> py_strip b = [])) \<and>
   ((\<forall>l\<in>set (stdin w). py_strip l = []) \<longrightarrow> get_user_answer False w = Starved) \<and>
   (\<forall>a w'. get_user_answer False w = Returned a w' \<longrightarrow>
      (\<exists>bs cs b. stdin w = bs @ cs @ b # stdin w' \<and> (\<forall>l\<in>set bs. py_strip l = []) \<and>
         cs \<noteq> [] \<and> (\<forall>l\<in>set cs. py_strip l \<noteq> []) \<and> py_strip b = [])) \<and>
   get_user_answer False (w\<lparr>stdin := ['''', ''x'', '''']\<rparr>) =
     Returned ''x'' (emit [Printed text_banner] (w\<lparr>stdin := []\<rparr>))"
proof (intro conjI)
  show "(\<exists>a w'. get_user_answer False w = Returned a w') \<longleftrightarrow>
      (\<exists>pre x mid b post. stdin w = pre @ x # mid @ b # post \<and>
         py_strip x \<noteq> [] \<and> py_strip b = [])"
  proof
    assume "\<exists>a w'. get_user_answer False w = Returned a w'"
    then obtain a w' where "get_user_answer False w = Returned a w'" by blast
    from get_user_answer_text_shape[OF this] obtain bs cs b where
      s: "stdin w = bs @ cs @ b # stdin w'" "cs \<noteq> []" "\<forall>l\<in>set cs. py_strip l \<noteq> []"
        "py_strip b = []"
      by (elim exE conjE)
    then obtain x mid where cs: "cs = x # mid" by (cases cs) auto
    with s have "stdin w = bs @ x # mid @ b # stdin w' \<and> py_strip x \<noteq> [] \<and> py_strip b = []"
      by simp
    then show "\<exists>pre x mid b post. stdin w = pre @ x # mid @ b # post \<and>
         py_strip x \<noteq> [] \<and> py_strip b = []" by (intro exI)
  next
    assume "\<exists>pre x mid b post. stdin w = pre @ x # mid @ b # post \<and>
         py_strip x \<noteq> [] \<and> py_strip b = []"
    then obtain pre x mid b post where
      s: "stdin w = pre @ x # mid @ b # post" "py_strip x \<noteq> []" "py_strip b = []" by blast
    let ?v = "emit [Printed text_banner] w"
    have "stdin ?v = pre @ x # (mid @ b # post)" using s(1) by simp
    moreover note s(2)
    moreover have "\<exists>l\<in>set (mid @ b # post). py_strip l = []" using s(3) by simp
    ultimately have "\<exists>r w'. text_loop [] ?v = Returned r w'"
      by (rule text_loop_returns)
    then obtain r w' where "text_loop [] ?v = Returned r w'" by (elim exE)
    then show "\<exists>a w'. get_user_answer False w = Returned a w'"
      by (simp add: get_user_answer_def)
  qed
next
  show "(\<forall>l\<in>set (stdin w). py_strip l = []) \<longrightarrow> get_user_answer False w = Starved"
  proof
    assume blank: "\<forall>l\<in>set (stdin w). py_strip l = []"
    let ?v = "emit [Printed text_banner] w"
    have "stdin ?v = stdin w @ []" by simp
    then have "text_loop [] ?v = text_loop [] (?v\<lparr>stdin := []\<rparr>)"
      using blank by (rule text_loop_skip)
    also have "\<dots> = Starved" by (simp add: text_loop_Nil)
    finally show "get_user_answer False w = Starved" by (simp add: get_user_answer_def)
  qed
next
  show "\<forall>a w'. get_user_answer False w = Returned a w' \<longrightarrow>
      (\<exists>bs cs b. stdin w = bs @ cs @ b # stdin w' \<and> (\<forall>l\<in>set bs. py_strip l = []) \<and>
         cs \<noteq> [] \<and> (\<forall>l\<in>set cs. py_strip l \<noteq> []) \<and> py_strip b = [])"
  proof (intro allI impI)
    fix a w'
    assume "get_user_answer False w = Returned a w'"
    from get_user_answer_text_shape[OF this] obtain bs cs b where
      "stdin w = bs @ cs @ b # stdin w' \<and> (\<forall>l\<in>set bs. py_strip l = []) \<and>
         cs \<noteq> [] \<and> (\<forall>l\<in>set cs. py_strip l \<noteq> []) \<and> py_strip b = []"
      by (elim exE conjE) simp
    then show "\<exists>bs cs b. stdin w = bs @ cs @ b # stdin w' \<and> (\<forall>l\<in>set bs. py_strip l = []) \<and>
         cs \<noteq> [] \<and> (\<forall>l\<in>set cs. py_strip l \<noteq> []) \<and> py_strip b = []"
      by (intro exI)
  qed
next
  let ?v = "emit [Printed text_banner] (w\<lparr>stdin := ['''', ''x'', '''']\<rparr>)"
  have "stdin ?v = [''''] @ [''x''] @ '''' # []" by simp
  then have "text_loop [] ?v = Returned [''x''] (?v\<lparr>stdin := []\<rparr>)"
    by (rule text_loop_shape) (simp_all add: py_strip_def py_isspace_def)
  then show "get_user_answer False (w\<lparr>stdin := ['''', ''x'', '''']\<rparr>) =
      Returned ''x'' (emit [Printed text_banner] (w\<lparr>stdin := []\<rparr>))"
    by (simp add: get_user_answer_def emit_def)
qed

theorem text_answer_returns_iff_witness:
  "get_user_answer False \<lparr>stdin = ['''', ''  '', ''''], mic = [], llm = [], out = []\<rparr> = Starved \<and>
   get_user_answer False \<lparr>stdin = ['''', ''x''], mic = [], llm = [], out = []\<rparr> = Starved \<and>
   (\<exists>a w'. get_user_answer False \<lparr>stdin = ['''', ''x'', ''y'', '' '', ''z''], mic = [], llm = [], out = []\<rparr>
      = Returned a w')"
proof (intro conjI)
  show "get_user_answer False \<lparr>stdin = ['''', ''  '', ''''], mic = [], llm = [], out = []\<rparr> = Starved"
    using text_answer_returns_iff[of "\<lparr>stdin = ['''', ''  '', ''''], mic = [], llm = [], out = []\<rparr>"]
    by (simp add: py_strip_def py_isspace_def)
  show "get_user_answer False \<lparr>stdin = ['''', ''x''], mic = [], llm = [], out = []\<rparr> = Starved"
    by (simp add: get_user_answer_def text_loop.simps py_input_def py_strip_def py_isspace_def)
  have "\<exists>pre x mid b post. ['''', ''x'', ''y'', '' '', ''z''] = pre @ x # mid @ b # post \<and>
      py_strip x \<noteq> [] \<and> py_strip b = []"
    by (rule exI[of _ "['''']"], rule exI[of _ "''x''"], rule exI[of _ "[''y'']"],
        rule exI[of _ "'' ''"], rule exI[of _ "[''z'']"])
       (simp add: py_strip_def py_isspace_def)
  then show "\<exists>a w'. get_user_answer False \<lparr>stdin = ['''', ''x'', ''y'', '' '', ''z''], mic = [], llm = [], out = []\<rparr>
      = Returned a w'"
    using text_answer_returns_iff[of "\<lparr>stdin = ['''', ''x'', ''y'', '' '', ''z''], mic = [], llm = [], out = []\<rparr>"]
    by simp
qed


text \<open>
  C10. A line is blank exactly when all its characters are white space, so \<open>"  "\<close> is
  blank for skipping and for ending alike. Whenever \<open>get_user_answer\<close> returns in text
  mode, the answer holds a character that is not white space, and it is the join of the
  lines read that are not blank, each one unchanged, white space at its ends included.
\<close>

theorem text_answer_has_content:
  "(py_strip l = [] \<longleftrightarrow> (\<forall>c\<in>set l. py_isspace c)) \<and>
   (\<forall>a w'. get_user_answer False w = Returned a w' \<longrightarrow>
      (\<exists>c\<in>set a. \<not> py_isspace c) \<and> py_strip a \<noteq> [] \<and>
      (\<exists>used. stdin w = used @ stdin w' \<and>
         a = py_join NL (filter (\<lambda>l. py_strip l \<noteq> []) used))) \<and>
   get_user_answer False (w\<lparr>stdin := [''  '', ''  a '', ''b'', ''  '', ''c'']\<rparr>) =
     Returned (''  a '' @ NL @ ''b'') (emit [Printed text_banner] (w\<lparr>stdin := [''c'']\<rparr>))"
proof (intro conjI allI impI)
  show "py_strip l = [] \<longleftrightarrow> (\<forall>c\<in>set l. py_isspace c)" by (rule py_strip_Nil_iff)
next
  fix a w'
  assume "get_user_answer False w = Returned a w'"
  from get_user_answer_text_shape[OF this] obtain bs cs b where
    s: "stdin w = bs @ cs @ b # stdin w'" "\<forall>l\<in>set bs. py_strip l = []" "cs \<noteq> []"
      "\<forall>l\<in>set cs. py_strip l \<noteq> []" "py_strip b = []" "a = py_join NL cs"
    by (elim exE conjE)
  from s(3,4) have "hd cs \<in> set cs" "py_strip (hd cs) \<noteq> []" by simp_all
  then obtain c where c: "c \<in> set (hd cs)" "\<not> py_isspace c"
    using py_strip_Nil_iff[of "hd cs"] by blast
  from \<open>hd cs \<in> set cs\<close> have "set (hd cs) \<subseteq> set (py_join NL cs)" by (rule set_py_join)
  with c s(6) have ca: "c \<in> set a" by blast
  with c(2) show "\<exists>c\<in>set a. \<not> py_isspace c" by blast
  from ca c(2) show "py_strip a \<noteq> []" using py_strip_Nil_iff[of a] by blast
  have "filter (\<lambda>l. py_strip l \<noteq> []) bs = []" using s(2) by simp
  moreover have "filter (\<lambda>l. py_strip l \<noteq> []) cs = cs" using s(4) by simp
  ultimately have "filter (\<lambda>l. py_strip l \<noteq> []) ((bs @ cs @ [b])) = cs" using s(5) by simp
  then have "stdin w = (bs @ cs @ [b]) @ stdin w' \<and>
      a = py_join NL (filter (\<lambda>l. py_strip l \<noteq> []) (bs @ cs @ [b]))"
    using s(1,6) by simp
  then show "\<exists>used. stdin w = used @ stdin w' \<and>
      a = py_join NL (filter (\<lambda>l. py_strip l \<noteq> []) used)" by (intro exI)
next
  let ?v = "emit [Printed text_banner] (w\<lparr>stdin := [''  '', ''  a '', ''b'', ''  '', ''c'']\<rparr>)"
  have "stdin ?v = [''  ''] @ [''  a '', ''b''] @ ''  '' # [''c'']" by simp
  then have "text_loop [] ?v = Returned [''  a '', ''b''] (?v\<lparr>stdin := [''c'']\<rparr>)"
    by (rule text_loop_shape) (simp_all add: py_strip_def py_isspace_def)
  then show "get_user_answer False (w\<lparr>stdin := [''  '', ''  a '', ''b'', ''  '', ''c'']\<rparr>) =
      Returned (''  a '' @ NL @ ''b'') (emit [Printed text_banner] (w\<lparr>stdin := [''c'']\<rparr>))"
    by (simp add: get_user_answer_def emit_def)
qed

theorem text_answer_has_content_witness:
  "get_user_answer False \<lparr>stdin = [''  '', '' a  '', ''  ''], mic = [], llm = [], out = []\<rparr> =
     Returned '' a  '' \<lparr>stdin = [], mic = [], llm = [], out = [Printed text_banner]\<rparr> \<and>
   py_strip '' a  '' \<noteq> []"
proof -
  have r: "get_user_answer False \<lparr>stdin = [''  '', '' a  '', ''  ''], mic = [], llm = [], out = []\<rparr> =
     Returned '' a  '' \<lparr>stdin = [], mic = [], llm = [], out = [Printed text_banner]\<rparr>"
    by (simp add: get_user_answer_def text_loop.simps py_input_def py_strip_def py_isspace_def
        emit_def)
  with text_answer_has_content[of "[]" "\<lparr>stdin = [''  '', '' a  '', ''  ''], mic = [], llm = [], out = []\<rparr>"]
  have "py_strip '' a  '' \<noteq> []" by blast
  with r show ?thesis by simp
qed

section \<open>The answer spoken into the microphone\<close>

text \<open>The value of a call that returned; \<open>None\<close> for one that did not.\<close>

definition answer_of :: "'a result \<Rightarrow> 'a option" where
  "answer_of r = (case r of Returned a w \<Rightarrow> Some a | Raised e \<Rightarrow> None | Starved \<Rightarrow> None)"

text \<open>
  The collector as the specification words it, over the results of \<open>listen\<close>: recognised
  text is appended and resets the silence counter, anything else increments it, the loop
  stops once the counter reaches 3; \<open>None\<close> when the results run out before that. The
  answer is the parts joined by single spaces, or the fallback when there are none.
\<close>

fun spec_voice_loop :: "string list \<Rightarrow> nat \<Rightarrow> recognition list \<Rightarrow> string list option" where
  "spec_voice_loop parts silence [] = (if 3 \<le> silence then Some parts else None)"
| "spec_voice_loop parts silence (r # script) =
     (if 3 \<le> silence then Some parts
      else case r of
        Transcript text \<Rightarrow> spec_voice_loop (parts @ [text]) 0 script
      | Raises e \<Rightarrow> spec_voice_loop parts (silence + 1) script)"

definition spec_collect_voice_answer :: "recognition list \<Rightarrow> string option" where
  "spec_collect_voice_answer script =
     map_option (\<lambda>parts. if parts = [] then no_answer else py_join '' '' parts)
       (spec_voice_loop [] 0 script)"

text \<open>
  What \<open>if user_input:\<close> makes of a result of the recogniser: an empty transcript is
  false, as \<open>None\<close> is, so it counts as a call that recognised nothing.
\<close>

definition as_heard :: "recognition \<Rightarrow> recognition" where
  "as_heard r = (if r = Transcript [] then Raises UnknownValueError else r)"

lemma voice_loop_heard:
  "sc < max_silence \<Longrightarrow> mic w = Transcript t # rest \<Longrightarrow> t \<noteq> [] \<Longrightarrow>
   voice_loop ps sc w = voice_loop (ps @ [t]) 0
     (w\<lparr>mic := rest, out := out w @ [Printed ''Listening...'', Printed ''Recognizing...'',
        Printed (''You said: '' @ t)]\<rparr>)"
  by (simp add: voice_loop_step voice_iteration_heard)

lemma voice_loop_silent:
  "sc < max_silence \<Longrightarrow> mic w = r # rest \<Longrightarrow> r \<noteq> Raises OtherException \<Longrightarrow> spoken r = [] \<Longrightarrow>
   voice_loop ps sc w = voice_loop ps (Suc sc)
     (w\<lparr>mic := rest, out := out w @ [Printed ''Listening...'', Printed ''Recognizing...'',
        Printed (apology r)] @
        (if sc = 0 then [Printed confirm_prompt, Said confirm_prompt] else [])\<rparr>)"
  by (simp add: voice_loop_step voice_iteration_silent)

lemma voice_loop_Nil: "sc < max_silence \<Longrightarrow> mic w = [] \<Longrightarrow> voice_loop ps sc w = Starved"
  by (simp add: voice_loop_step voice_iteration_Nil)

lemma spoken_cases:
  "r \<noteq> Raises OtherException \<Longrightarrow>
   (\<exists>t. r = Transcript t \<and> t \<noteq> [] \<and> spoken r = [t] \<and> as_heard r = r) \<or>
   (spoken r = [] \<and> (\<exists>e. as_heard r = Raises e))"
  by (cases r) (auto simp: spoken_def as_heard_def)

lemma voice_loop_refines:
  "mic w = script \<Longrightarrow> \<forall>r\<in>set script. r \<noteq> Raises OtherException \<Longrightarrow>
   answer_of (voice_loop ps sc w) = spec_voice_loop ps sc (map as_heard script)"
proof (induction script arbitrary: ps sc w)
  case Nil
  then show ?case
    by (cases "sc < max_silence")
       (simp_all add: voice_loop_Nil voice_loop_done answer_of_def max_silence_def)
next
  case (Cons r script)
  show ?case
  proof (cases "sc < max_silence")
    case False
    then show ?thesis by (simp add: voice_loop_done answer_of_def max_silence_def)
  next
    case True
    then have lt: "\<not> 3 \<le> sc" by (simp add: max_silence_def)
    from Cons.prems(2) have r: "r \<noteq> Raises OtherException"
      and rest: "\<forall>r\<in>set script. r \<noteq> Raises OtherException" by simp_all
    from spoken_cases[OF r] show ?thesis
    proof
      assume "\<exists>t. r = Transcript t \<and> t \<noteq> [] \<and> spoken r = [t] \<and> as_heard r = r"
      then obtain t where t: "r = Transcript t" "t \<noteq> []" "as_heard r = r" by blast
      let ?w1 = "w\<lparr>mic := script, out := out w @ [Printed ''Listening...'',
        Printed ''Recognizing...'', Printed (''You said: '' @ t)]\<rparr>"
      have "mic w = Transcript t # script" using Cons.prems(1) t by simp
      from voice_loop_heard[OF True this t(2)]
      have "voice_loop ps sc w = voice_loop (ps @ [t]) 0 ?w1" .
      moreover have "answer_of (voice_loop (ps @ [t]) 0 ?w1) =
          spec_voice_loop (ps @ [t]) 0 (map as_heard script)"
        using rest by (intro Cons.IH) simp_all
      ultimately show ?thesis using lt t by simp
    next
      assume "spoken r = [] \<and> (\<exists>e. as_heard r = Raises e)"
      then obtain e where s: "spoken r = []" "as_heard r = Raises e" by blast
      let ?w1 = "w\<lparr>mic := script, out := out w @ [Printed ''Listening...'',
        Printed ''Recognizing...'', Printed (apology r)] @
        (if sc = 0 then [Printed confirm_prompt, Said confirm_prompt] else [])\<rparr>"
      from voice_loop_silent[OF True Cons.prems(1) r s(1)]
      have "voice_loop ps sc w = voice_loop ps (Suc sc) ?w1" .
      moreover have "answer_of (voice_loop ps (Suc sc) ?w1) =
          spec_voice_loop ps (Suc sc) (map as_heard script)"
        using rest by (intro Cons.IH) simp_all
      ultimately show ?thesis using lt s by simp
    qed
  qed
qed

lemma answer_of_get_user_answer_voice:
  "answer_of (get_user_answer True w) =
     map_option (\<lambda>parts. if parts = [] then no_answer else py_join '' '' parts)
       (answer_of (voice_loop [] 0 (speak voice_banner w)))"
  by (simp add: get_user_answer_def answer_of_def split: result.splits)

text \<open>
  C2, amended. In voice mode \<open>get_user_answer\<close> runs the loop of the specification on
  the results of \<open>listen\<close>, an empty transcript counting as a call that recognised
  nothing: each recognised text that is not empty is appended and resets the counter,
  every other result increments it, the loop stops at 3, and the answer is the parts
  joined by single spaces in the order of arrival. The script of the specification gives
  \<open>"a b"\<close>.
\<close>

theorem voice_answer_refines_spec:
  assumes "\<forall>r\<in>set (mic w). r \<noteq> Raises OtherException"
  shows "answer_of (get_user_answer True w) = spec_collect_voice_answer (map as_heard (mic w)) \<and>
         answer_of (get_user_answer True (w\<lparr>mic := [Transcript ''a'', Raises UnknownValueError,
            Transcript ''b'', Raises UnknownValueError, Raises UnknownValueError,
            Raises UnknownValueError]\<rparr>)) = Some ''a b''"
proof
  have "answer_of (voice_loop [] 0 (speak voice_banner w)) =
      spec_voice_loop [] 0 (map as_heard (mic w))"
    using assms by (intro voice_loop_refines) simp_all
  then show "answer_of (get_user_answer True w) = spec_collect_voice_answer (map as_heard (mic w))"
    by (simp add: answer_of_get_user_answer_voice spec_collect_voice_answer_def)
next
  let ?s = "[Transcript ''a'', Raises UnknownValueError, Transcript ''b'',
    Raises UnknownValueError, Raises UnknownValueError, Raises UnknownValueError]"
  have "answer_of (voice_loop [] 0 (speak voice_banner (w\<lparr>mic := ?s\<rparr>))) =
      spec_voice_loop [] 0 (map as_heard ?s)"
    by (intro voice_loop_refines) simp_all
  then show "answer_of (get_user_answer True (w\<lparr>mic := ?s\<rparr>)) = Some ''a b''"
    by (simp add: answer_of_get_user_answer_voice as_heard_def)
qed

theorem voice_answer_refines_spec_witness:
  "answer_of (get_user_answer True \<lparr>stdin = [], mic = [Transcript ''a'', Raises RequestError,
      Transcript ''b c'', Raises UnknownValueError, Raises RequestError, Raises UnknownValueError,
      Transcript ''d''], llm = [], out = []\<rparr>) = Some ''a b c''"
  using voice_answer_refines_spec[of "\<lparr>stdin = [], mic = [Transcript ''a'', Raises RequestError,
      Transcript ''b c'', Raises UnknownValueError, Raises RequestError, Raises UnknownValueError,
      Transcript ''d''], llm = [], out = []\<rparr>"]
  by (simp add: spec_collect_voice_answer_def as_heard_def)

text \<open>
  C2 as stated fails for a recognised text that is empty: it is not appended and does not
  reset the counter. After an empty transcript and two calls that recognised nothing the
  program has counted three silences and returned the fallback, where the loop of the
  specification has counted two and still listens.
\<close>

theorem voice_answer_empty_transcript:
  "answer_of (get_user_answer True \<lparr>stdin = [], mic = [Transcript '''', Raises UnknownValueError,
      Raises UnknownValueError], llm = [], out = []\<rparr>) = Some ''No answer provided.'' \<and>
   spec_collect_voice_answer [Transcript '''', Raises UnknownValueError, Raises UnknownValueError]
     = None"
  by code_simp


text \<open>The two exceptions \<open>listen\<close> catches: nothing understood, service not reachable.\<close>

definition unrecognised :: "recognition \<Rightarrow> bool" where
  "unrecognised r = (r = Raises UnknownValueError \<or> r = Raises RequestError)"

lemma unrecognised_silent:
  "unrecognised r \<Longrightarrow> r \<noteq> Raises OtherException \<and> spoken r = []"
  by (auto simp: unrecognised_def spoken_def)

lemma voice_loop_silence_ends:
  "mic w = sil @ rest \<Longrightarrow> \<forall>r\<in>set sil. r \<noteq> Raises OtherException \<and> spoken r = [] \<Longrightarrow>
   sc + length sil = max_silence \<Longrightarrow>
   \<exists>w'. voice_loop ps sc w = Returned ps w' \<and> mic w' = rest"
proof (induction sil arbitrary: sc w)
  case Nil
  then show ?case by (simp add: voice_loop_done)
next
  case (Cons r sil)
  from Cons.prems have lt: "sc < max_silence" and st: "mic w = r # (sil @ rest)"
    and r: "r \<noteq> Raises OtherException" "spoken r = []" by simp_all
  let ?w1 = "w\<lparr>mic := sil @ rest, out := out w @ [Printed ''Listening...'',
    Printed ''Recognizing...'', Printed (apology r)] @
    (if sc = 0 then [Printed confirm_prompt, Said confirm_prompt] else [])\<rparr>"
  have "voice_loop ps sc w = voice_loop ps (Suc sc) ?w1"
    by (rule voice_loop_silent[OF lt st r])
  moreover have "\<exists>w'. voice_loop ps (Suc sc) ?w1 = Returned ps w' \<and> mic w' = rest"
    using Cons.prems by (intro Cons.IH) simp_all
  ultimately show ?case by simp
qed

lemma voice_loop_silence_starves:
  "mic w = sil \<Longrightarrow> \<forall>r\<in>set sil. r \<noteq> Raises OtherException \<and> spoken r = [] \<Longrightarrow>
   sc + length sil < max_silence \<Longrightarrow> voice_loop ps sc w = Starved"
proof (induction sil arbitrary: sc w)
  case Nil
  then show ?case by (simp add: voice_loop_Nil)
next
  case (Cons r sil)
  from Cons.prems have lt: "sc < max_silence" and st: "mic w = r # sil"
    and r: "r \<noteq> Raises OtherException" "spoken r = []" by simp_all
  let ?w1 = "w\<lparr>mic := sil, out := out w @ [Printed ''Listening...'',
    Printed ''Recognizing...'', Printed (apology r)] @
    (if sc = 0 then [Printed confirm_prompt, Said confirm_prompt] else [])\<rparr>"
  have "voice_loop ps sc w = voice_loop ps (Suc sc) ?w1"
    by (rule voice_loop_silent[OF lt st r])
  moreover have "voice_loop ps (Suc sc) ?w1 = Starved"
    using Cons.prems by (intro Cons.IH) simp_all
  ultimately show ?case by simp
qed

text \<open>
  C3, amended. When every call of \<open>listen\<close> ends in one of the two caught exceptions,
  \<open>get_user_answer\<close> returns \<open>"No answer provided."\<close> after exactly three calls: with three
  results or more it has read three, with fewer it is still waiting. Whenever it returns,
  the answer is that fallback if no part was collected from the results it read, and the
  joined parts otherwise; so the fallback text is returned exactly when no part was
  collected or the collected parts spell it.
\<close>

theorem voice_answer_fallback:
  "no_answer = ''No answer provided.'' \<and>
   ((\<forall>r\<in>set script. unrecognised r) \<longrightarrow>
      (3 \<le> length script \<longrightarrow>
         (\<exists>w'. get_user_answer True (w\<lparr>mic := script\<rparr>) = Returned no_answer w' \<and>
            mic w' = drop 3 script)) \<and>
      (length script < 3 \<longrightarrow> get_user_answer True (w\<lparr>mic := script\<rparr>) = Starved)) \<and>
   (\<forall>a w'. get_user_answer True w = Returned a w' \<longrightarrow>
      (\<exists>used. mic w = used @ mic w' \<and>
         (concat (map spoken used) = [] \<longrightarrow> a = no_answer) \<and>
         (concat (map spoken used) \<noteq> [] \<longrightarrow> a = py_join '' '' (concat (map spoken used))) \<and>
         (a = no_answer \<longleftrightarrow>
            concat (map spoken used) = [] \<or>
            py_join '' '' (concat (map spoken used)) = no_answer)))"
proof (intro conjI impI allI)
  show "no_answer = ''No answer provided.''" by (simp add: no_answer_def)
next
  assume sil: "\<forall>r\<in>set script. unrecognised r" and len: "3 \<le> length script"
  let ?v = "speak voice_banner (w\<lparr>mic := script\<rparr>)"
  have "mic ?v = take 3 script @ drop 3 script" by simp
  moreover have "\<forall>r\<in>set (take 3 script). r \<noteq> Raises OtherException \<and> spoken r = []"
    using sil unrecognised_silent by (blast dest: in_set_takeD)
  moreover have "0 + length (take 3 script) = max_silence" using len by (simp add: max_silence_def)
  ultimately have "\<exists>w'. voice_loop [] 0 ?v = Returned [] w' \<and> mic w' = drop 3 script"
    by (rule voice_loop_silence_ends)
  then obtain w' where "voice_loop [] 0 ?v = Returned [] w'" "mic w' = drop 3 script" by blast
  then have "get_user_answer True (w\<lparr>mic := script\<rparr>) = Returned no_answer w' \<and>
      mic w' = drop 3 script"
    by (simp add: get_user_answer_def)
  then show "\<exists>w'. get_user_answer True (w\<lparr>mic := script\<rparr>) = Returned no_answer w' \<and>
      mic w' = drop 3 script" by (intro exI)
next
  assume sil: "\<forall>r\<in>set script. unrecognised r" and len: "length script < 3"
  let ?v = "speak voice_banner (w\<lparr>mic := script\<rparr>)"
  have "mic ?v = script" by simp
  moreover have "\<forall>r\<in>set script. r \<noteq> Raises OtherException \<and> spoken r = []"
    using sil unrecognised_silent by blast
  moreover have "0 + length script < max_silence" using len by (simp add: max_silence_def)
  ultimately have "voice_loop [] 0 ?v = Starved" by (rule voice_loop_silence_starves)
  then show "get_user_answer True (w\<lparr>mic := script\<rparr>) = Starved"
    by (simp add: get_user_answer_def)
next
  fix a w'
  assume "get_user_answer True w = Returned a w'"
  then obtain ps where ps: "voice_loop [] 0 (speak voice_banner w) = Returned ps w'"
    and a: "a = (if ps \<noteq> [] then py_join '' '' ps else no_answer)"
    by (auto simp: get_user_answer_def split: result.splits)
  from voice_loop_frame[OF ps] obtain used where
    "mic (speak voice_banner w) = used @ mic w'" "ps = [] @ concat (map spoken used)"
    by blast
  then have "mic w = used @ mic w' \<and>
      (concat (map spoken used) = [] \<longrightarrow> a = no_answer) \<and>
      (concat (map spoken used) \<noteq> [] \<longrightarrow> a = py_join '' '' (concat (map spoken used))) \<and>
      (a = no_answer \<longleftrightarrow>
         concat (map spoken used) = [] \<or> py_join '' '' (concat (map spoken used)) = no_answer)"
    using a by auto
  then show "\<exists>used. mic w = used @ mic w' \<and>
      (concat (map spoken used) = [] \<longrightarrow> a = no_answer) \<and>
      (concat (map spoken used) \<noteq> [] \<longrightarrow> a = py_join '' '' (concat (map spoken used))) \<and>
      (a = no_answer \<longleftrightarrow>
         concat (map spoken used) = [] \<or> py_join '' '' (concat (map spoken used)) = no_answer)"
    by (intro exI)
qed

theorem voice_answer_fallback_witness:
  "(\<exists>w'. get_user_answer True \<lparr>stdin = [], mic = [Raises UnknownValueError, Raises RequestError,
        Raises UnknownValueError, Raises RequestError], llm = [], out = []\<rparr> =
      Returned ''No answer provided.'' w' \<and> mic w' = [Raises RequestError]) \<and>
   get_user_answer True \<lparr>stdin = [], mic = [Raises UnknownValueError, Raises RequestError],
      llm = [], out = []\<rparr> = Starved"
proof
  show "\<exists>w'. get_user_answer True \<lparr>stdin = [], mic = [Raises UnknownValueError, Raises RequestError,
        Raises UnknownValueError, Raises RequestError], llm = [], out = []\<rparr> =
      Returned ''No answer provided.'' w' \<and> mic w' = [Raises RequestError]"
    using voice_answer_fallback[of "[Raises UnknownValueError, Raises RequestError,
        Raises UnknownValueError, Raises RequestError]"
        "\<lparr>stdin = [], mic = [], llm = [], out = []\<rparr>"]
    by (simp add: unrecognised_def)
  show "get_user_answer True \<lparr>stdin = [], mic = [Raises UnknownValueError, Raises RequestError],
      llm = [], out = []\<rparr> = Starved"
    using voice_answer_fallback[of "[Raises UnknownValueError, Raises RequestError]"
        "\<lparr>stdin = [], mic = [], llm = [], out = []\<rparr>"]
    by (simp add: unrecognised_def)
qed

text \<open>
  C3 as stated fails in one direction: the text of the fallback is also returned with a
  part collected, when the user says those very words.
\<close>

theorem voice_answer_fallback_text_spoken:
  "answer_of (get_user_answer True \<lparr>stdin = [], mic = [Transcript ''No answer provided.'',
      Raises UnknownValueError, Raises UnknownValueError, Raises UnknownValueError],
      llm = [], out = []\<rparr>) = Some ''No answer provided.'' \<and>
   concat (map spoken [Transcript ''No answer provided.'', Raises UnknownValueError,
      Raises UnknownValueError, Raises UnknownValueError]) = [''No answer provided.'']"
  by code_simp










section \<open>Configuration of the session\<close>

lemma lower_char_eq:
  assumes "lower_char c = l"
  shows "c = l \<or> (c, l) \<in> set lower_table"
proof (cases "map_of lower_table c")
  case None
  with assms show ?thesis by (simp add: lower_char_def)
next
  case (Some a)
  with assms have "a = l" by (simp add: lower_char_def)
  with Some show ?thesis by (auto dest: map_of_SomeD)
qed

lemma lower_char_yes:
  "lower_char (CHR ''y'') = CHR ''y''" "lower_char (CHR ''Y'') = CHR ''y''"
  "lower_char (CHR ''e'') = CHR ''e''" "lower_char (CHR ''E'') = CHR ''e''"
  "lower_char (CHR ''s'') = CHR ''s''" "lower_char (CHR ''S'') = CHR ''s''"
  by code_simp+

lemma lower_char_y: "lower_char c = CHR ''y'' \<longleftrightarrow> c = CHR ''y'' \<or> c = CHR ''Y''"
proof
  assume "lower_char c = CHR ''y''"
  from lower_char_eq[OF this] show "c = CHR ''y'' \<or> c = CHR ''Y''"
    by (simp add: lower_table_def)
next
  assume "c = CHR ''y'' \<or> c = CHR ''Y''"
  then show "lower_char c = CHR ''y''" using lower_char_yes by blast
qed

lemma lower_char_e: "lower_char c = CHR ''e'' \<longleftrightarrow> c = CHR ''e'' \<or> c = CHR ''E''"
proof
  assume "lower_char c = CHR ''e''"
  from lower_char_eq[OF this] show "c = CHR ''e'' \<or> c = CHR ''E''"
    by (simp add: lower_table_def)
next
  assume "c = CHR ''e'' \<or> c = CHR ''E''"
  then show "lower_char c = CHR ''e''" using lower_char_yes by blast
qed

lemma lower_char_s: "lower_char c = CHR ''s'' \<longleftrightarrow> c = CHR ''s'' \<or> c = CHR ''S''"
proof
  assume "lower_char c = CHR ''s''"
  from lower_char_eq[OF this] show "c = CHR ''s'' \<or> c = CHR ''S''"
    by (simp add: lower_table_def)
next
  assume "c = CHR ''s'' \<or> c = CHR ''S''"
  then show "lower_char c = CHR ''s''" using lower_char_yes by blast
qed

lemma py_lower_yes:
  "py_lower x = ''yes'' \<longleftrightarrow>
     x \<in> set [''yes'', ''yeS'', ''yEs'', ''yES'', ''Yes'', ''YeS'', ''YEs'', ''YES'']"
proof -
  have "py_lower x = ''yes'' \<longleftrightarrow>
      (\<exists>a b c. x = [a, b, c] \<and> lower_char a = CHR ''y'' \<and> lower_char b = CHR ''e'' \<and>
         lower_char c = CHR ''s'')"
    by (auto simp: py_lower_def map_eq_Cons_conv)
  also have "\<dots> \<longleftrightarrow> (\<exists>a b c. x = [a, b, c] \<and> (a = CHR ''y'' \<or> a = CHR ''Y'') \<and>
      (b = CHR ''e'' \<or> b = CHR ''E'') \<and> (c = CHR ''s'' \<or> c = CHR ''S''))"
    by (simp only: lower_char_y lower_char_e lower_char_s)
  also have "\<dots> \<longleftrightarrow>
      x \<in> set [''yes'', ''yeS'', ''yEs'', ''yES'', ''Yes'', ''YeS'', ''YEs'', ''YES'']"
    by auto
  finally show ?thesis .
qed

lemma py_lower_y: "py_lower x = ''y'' \<longleftrightarrow> x \<in> set [''y'', ''Y'']"
proof -
  have "py_lower x = ''y'' \<longleftrightarrow> (\<exists>a. x = [a] \<and> lower_char a = CHR ''y'')"
    by (auto simp: py_lower_def map_eq_Cons_conv)
  also have "\<dots> \<longleftrightarrow> (\<exists>a. x = [a] \<and> (a = CHR ''y'' \<or> a = CHR ''Y''))"
    by (simp only: lower_char_y)
  also have "\<dots> \<longleftrightarrow> x \<in> set [''y'', ''Y'']" by auto
  finally show ?thesis .
qed

lemma affirmative_iff:
  "affirmative x \<longleftrightarrow> x \<in> set [''yes'', ''yeS'', ''yEs'', ''yES'', ''Yes'', ''YeS'', ''YEs'', ''YES'',
     ''y'', ''Y'']"
  unfolding affirmative_def using py_lower_yes[of x] py_lower_y[of x] by auto

text \<open>
  A line the loop rejects: not a numeral, or a number that is not positive; and what the
  loop prints and says for it before it asks again.
\<close>

definition invalid_count :: "string \<Rightarrow> bool" where
  "invalid_count line = (case py_int line of None \<Rightarrow> True | Some n \<Rightarrow> n \<le> 0)"

definition rejection :: "string \<Rightarrow> event list" where
  "rejection line =
     (case py_int line of
        None \<Rightarrow> [Prompted count_prompt, Printed not_a_number, Said not_a_number]
      | Some n \<Rightarrow> [Prompted count_prompt, Printed not_positive, Said not_positive])"

lemma ask_questions_per_round_Nil: "stdin w = [] \<Longrightarrow> ask_questions_per_round w = Starved"
  by (subst ask_questions_per_round.simps) (simp add: py_input_prompt_def py_input_def)

lemma ask_questions_per_round_reject:
  "stdin w = line # rest \<Longrightarrow> invalid_count line \<Longrightarrow>
   ask_questions_per_round w =
     ask_questions_per_round (w\<lparr>stdin := rest, out := out w @ rejection line\<rparr>)"
  by (subst ask_questions_per_round.simps)
     (auto simp: py_input_prompt_def py_input_def invalid_count_def rejection_def speak_def
        emit_def split: option.splits)

lemma ask_questions_per_round_accept:
  "stdin w = line # rest \<Longrightarrow> py_int line = Some n \<Longrightarrow> 0 < n \<Longrightarrow>
   ask_questions_per_round w =
     Returned n (w\<lparr>stdin := rest, out := out w @ [Prompted count_prompt]\<rparr>)"
  by (subst ask_questions_per_round.simps)
     (simp add: py_input_prompt_def py_input_def emit_def)

lemma ask_questions_per_round_rejects:
  "stdin w = bad @ rest \<Longrightarrow> \<forall>l\<in>set bad. invalid_count l \<Longrightarrow>
   ask_questions_per_round w =
     ask_questions_per_round (w\<lparr>stdin := rest, out := out w @ concat (map rejection bad)\<rparr>)"
proof (induction bad arbitrary: w)
  case Nil
  then have "w\<lparr>stdin := rest, out := out w @ concat (map rejection [])\<rparr> = w" by simp
  then show ?case by simp
next
  case (Cons l bad)
  from Cons.prems have st: "stdin w = l # (bad @ rest)" and l: "invalid_count l" by simp_all
  let ?w1 = "w\<lparr>stdin := bad @ rest, out := out w @ rejection l\<rparr>"
  have "ask_questions_per_round w = ask_questions_per_round ?w1"
    by (rule ask_questions_per_round_reject[OF st l])
  also have "\<dots> = ask_questions_per_round
      (?w1\<lparr>stdin := rest, out := out ?w1 @ concat (map rejection bad)\<rparr>)"
    using Cons.prems(2) by (intro Cons.IH) simp_all
  finally show ?case by simp
qed

lemma ask_questions_per_round_first_valid:
  assumes "stdin w = bad @ good # rest" and "\<forall>l\<in>set bad. invalid_count l"
    and "py_int good = Some n" and "0 < n"
  shows "ask_questions_per_round w =
     Returned n (w\<lparr>stdin := rest,
       out := out w @ concat (map rejection bad) @ [Prompted count_prompt]\<rparr>)"
proof -
  let ?w1 = "w\<lparr>stdin := good # rest, out := out w @ concat (map rejection bad)\<rparr>"
  have "ask_questions_per_round w = ask_questions_per_round ?w1"
    using assms(1,2) by (rule ask_questions_per_round_rejects)
  also have "\<dots> = Returned n (?w1\<lparr>stdin := rest, out := out ?w1 @ [Prompted count_prompt]\<rparr>)"
    using assms(3,4) by (intro ask_questions_per_round_accept) simp_all
  finally show ?thesis by simp
qed

lemma configure_unfold:
  "stdin w = topic # voice # rest \<Longrightarrow>
   configure w =
     (case ask_questions_per_round (w\<lparr>stdin := rest, out := out w @
          [Printed ''Welcome to InterviewMate Practice System!'',
           Said ''Welcome to InterviewMate Practice System!'',
           Printed ''Enter the job topic you want to practice for. For example, Software Engineering, Marketing, or Data Science.'',
           Said ''Enter the job topic you want to practice for. For example, Software Engineering, Marketing, or Data Science.'',
           Prompted ''Enter job topic: '',
           Printed ''Would you like to use voice input for your answers? Say yes or no.'',
           Said ''Would you like to use voice input for your answers? Say yes or no.'',
           Prompted ''Use voice input for answers? (yes/no): '',
           Printed ''How many questions would you like to practice per round?'',
           Said ''How many questions would you like to practice per round?'']\<rparr>) of
        Starved \<Rightarrow> Starved
      | Raised e \<Rightarrow> Raised e
      | Returned n w' \<Rightarrow>
          Returned \<lparr>job_topic = topic, use_voice = affirmative voice, questions_per_round = n,
             question_number = 1, previous_questions = []\<rparr> w')"
  by (simp add: configure_def Let_def py_input_prompt_def py_input_def speak_def emit_def)

lemma parse_zeros:
  "parse_digits b 0 (replicate n (CHR ''0'') @ cs) = parse_digits (b \<or> 0 < n) 0 cs"
proof (induction n arbitrary: b)
  case 0
  then show ?case by simp
next
  case (Suc n)
  have "digit_val (CHR ''0'') = Some 0" by (simp add: digit_val_def)
  then show ?case using Suc.IH[of True] by simp
qed

lemma int_literal_zeros_5: "int_literal (replicate (Suc n) (CHR ''0'') @ ''5'') = Some 5"
proof -
  have ns: "\<not> int_space (CHR ''0'')" "\<not> int_space (CHR ''5'')" by (simp_all add: int_space_def)
  have "dropWhile int_space (replicate (Suc n) (CHR ''0'') @ ''5'') =
      replicate (Suc n) (CHR ''0'') @ ''5''"
    using ns by simp
  moreover have "rev (replicate (Suc n) (CHR ''0'') @ ''5'') = CHR ''5'' # replicate (Suc n) (CHR ''0'')"
    by (simp add: replicate_append_same)
  moreover have "dropWhile int_space (CHR ''5'' # replicate (Suc n) (CHR ''0'')) =
      CHR ''5'' # replicate (Suc n) (CHR ''0'')"
    using ns by simp
  moreover have "rev (CHR ''5'' # replicate (Suc n) (CHR ''0'')) =
      CHR ''0'' # (replicate n (CHR ''0'') @ ''5'')"
    by (simp add: replicate_append_same)
  moreover have "parse_digits False 0 (CHR ''0'' # (replicate n (CHR ''0'') @ ''5'')) = Some 5"
  proof -
    have "parse_digits False 0 (replicate (Suc n) (CHR ''0'') @ ''5'') =
        parse_digits True 0 ''5''"
      using parse_zeros[of False "Suc n" "''5''"] by simp
    also have "\<dots> = Some 5" by (simp add: digit_val_def)
    finally show ?thesis by simp
  qed
  ultimately show ?thesis by (simp add: int_literal_def)
qed

lemma py_int_over_limit:
  "int_max_str_digits < length (filter (\<lambda>c. c \<in> set ''0123456789'') line) \<Longrightarrow> py_int line = None"
  by (simp add: py_int_def)

lemma long_numeral:
  "int_literal (replicate 4300 (CHR ''0'') @ ''5'') = Some 5"
  "py_int (replicate 4300 (CHR ''0'') @ ''5'') = None"
proof -
  have "replicate 4300 (CHR ''0'') = replicate (Suc 4299) (CHR ''0'')" by simp
  then show "int_literal (replicate 4300 (CHR ''0'') @ ''5'') = Some 5"
    using int_literal_zeros_5[of 4299] by simp
  have "length (filter (\<lambda>c. c \<in> set ''0123456789'') (replicate 4300 (CHR ''0'') @ ''5'')) = 4301"
    by simp
  then show "py_int (replicate 4300 (CHR ''0'') @ ''5'') = None"
    by (simp add: py_int_def int_max_str_digits_def)
qed

text \<open>
  C8, amended. After any lines that \<open>int\<close> rejects or that are numbers that are not
  positive, the first line that \<open>int\<close> converts to a positive integer ends the loop with
  \<open>questions_per_round\<close> set to it; each rejected line is answered by a message and the
  prompt again, and the loop never ends on rejected lines alone. A numeral of more than
  4300 digits is among the rejected lines. The topic and the voice mode read before are
  those of the session that \<open>configure\<close> returns. The lines \<open>"-1"\<close>, \<open>"0"\<close>, \<open>"abc"\<close> are
  rejected and \<open>"5"\<close> then gives 5.
\<close>

theorem count_prompt_retries:
  assumes "\<forall>l\<in>set bad. invalid_count l" and "py_int good = Some n" and "0 < n"
  shows "ask_questions_per_round (w\<lparr>stdin := bad @ good # rest\<rparr>) =
           Returned n (w\<lparr>stdin := rest,
             out := out w @ concat (map rejection bad) @ [Prompted count_prompt]\<rparr>) \<and>
         ask_questions_per_round (w\<lparr>stdin := bad\<rparr>) = Starved \<and>
         (int_max_str_digits < length (filter (\<lambda>c. c \<in> set ''0123456789'') line) \<longrightarrow>
            invalid_count line) \<and>
         (\<exists>w'. configure (w\<lparr>stdin := topic # voice # bad @ good # rest\<rparr>) =
            Returned \<lparr>job_topic = topic, use_voice = affirmative voice, questions_per_round = n,
              question_number = 1, previous_questions = []\<rparr> w' \<and> stdin w' = rest) \<and>
         map invalid_count [''-1'', ''0'', ''abc'', ''5''] = [True, True, True, False] \<and>
         py_int ''5'' = Some 5 \<and>
         (\<exists>w'. ask_questions_per_round (w\<lparr>stdin := [''-1'', ''0'', ''abc'', ''5'']\<rparr>) =
            Returned 5 w')"
proof (intro conjI)
  show "ask_questions_per_round (w\<lparr>stdin := bad @ good # rest\<rparr>) =
      Returned n (w\<lparr>stdin := rest,
        out := out w @ concat (map rejection bad) @ [Prompted count_prompt]\<rparr>)"
    using ask_questions_per_round_first_valid[of "w\<lparr>stdin := bad @ good # rest\<rparr>" bad good rest n]
      assms by simp
next
  have "ask_questions_per_round (w\<lparr>stdin := bad\<rparr>) =
      ask_questions_per_round (w\<lparr>stdin := bad\<rparr>\<lparr>stdin := [],
        out := out (w\<lparr>stdin := bad\<rparr>) @ concat (map rejection bad)\<rparr>)"
    using assms(1) by (intro ask_questions_per_round_rejects) simp_all
  also have "\<dots> = Starved" by (simp add: ask_questions_per_round_Nil)
  finally show "ask_questions_per_round (w\<lparr>stdin := bad\<rparr>) = Starved" .
next
  show "int_max_str_digits < length (filter (\<lambda>c. c \<in> set ''0123456789'') line) \<longrightarrow>
      invalid_count line"
    by (simp add: invalid_count_def py_int_over_limit)
next
  let ?w = "w\<lparr>stdin := topic # voice # bad @ good # rest\<rparr>"
  let ?evs = "[Printed ''Welcome to InterviewMate Practice System!'',
           Said ''Welcome to InterviewMate Practice System!'',
           Printed ''Enter the job topic you want to practice for. For example, Software Engineering, Marketing, or Data Science.'',
           Said ''Enter the job topic you want to practice for. For example, Software Engineering, Marketing, or Data Science.'',
           Prompted ''Enter job topic: '',
           Printed ''Would you like to use voice input for your answers? Say yes or no.'',
           Said ''Would you like to use voice input for your answers? Say yes or no.'',
           Prompted ''Use voice input for answers? (yes/no): '',
           Printed ''How many questions would you like to practice per round?'',
           Said ''How many questions would you like to practice per round?'']"
  let ?w1 = "?w\<lparr>stdin := bad @ good # rest, out := out ?w @ ?evs\<rparr>"
  have "stdin ?w = topic # voice # (bad @ good # rest)" by simp
  note unf = configure_unfold[OF this]
  have "ask_questions_per_round ?w1 = Returned n (?w1\<lparr>stdin := rest,
       out := out ?w1 @ concat (map rejection bad) @ [Prompted count_prompt]\<rparr>)"
    using assms by (intro ask_questions_per_round_first_valid) simp_all
  with unf have "configure ?w =
      Returned \<lparr>job_topic = topic, use_voice = affirmative voice, questions_per_round = n,
        question_number = 1, previous_questions = []\<rparr>
        (?w1\<lparr>stdin := rest, out := out ?w1 @ concat (map rejection bad) @ [Prompted count_prompt]\<rparr>)"
    by simp
  then show "\<exists>w'. configure ?w =
      Returned \<lparr>job_topic = topic, use_voice = affirmative voice, questions_per_round = n,
        question_number = 1, previous_questions = []\<rparr> w' \<and> stdin w' = rest"
    by simp
next
  show "map invalid_count [''-1'', ''0'', ''abc'', ''5''] = [True, True, True, False]"
    by code_simp
next
  show "py_int ''5'' = Some 5" by code_simp
next
  have a: "\<forall>l\<in>set [''-1'', ''0'', ''abc'']. invalid_count l" by code_simp
  have b: "py_int ''5'' = Some 5" by code_simp
  have "ask_questions_per_round (w\<lparr>stdin := [''-1'', ''0'', ''abc''] @ ''5'' # []\<rparr>) =
      Returned 5 (w\<lparr>stdin := [''-1'', ''0'', ''abc''] @ ''5'' # []\<rparr>\<lparr>stdin := [],
        out := out (w\<lparr>stdin := [''-1'', ''0'', ''abc''] @ ''5'' # []\<rparr>) @
          concat (map rejection [''-1'', ''0'', ''abc'']) @ [Prompted count_prompt]\<rparr>)"
    using a b by (intro ask_questions_per_round_first_valid) simp_all
  then show "\<exists>w'. ask_questions_per_round (w\<lparr>stdin := [''-1'', ''0'', ''abc'', ''5'']\<rparr>) =
      Returned 5 w'" by simp
qed

theorem count_prompt_retries_witness:
  "\<exists>w'. configure \<lparr>stdin = [''Data Science'', ''Y'', ''-1'', ''0'', ''abc'', '' 5 '', ''7''],
       mic = [], llm = [], out = []\<rparr> =
     Returned \<lparr>job_topic = ''Data Science'', use_voice = True, questions_per_round = 5,
       question_number = 1, previous_questions = []\<rparr> w' \<and> stdin w' = [''7'']"
proof -
  have a: "\<forall>l\<in>set [''-1'', ''0'', ''abc'']. invalid_count l" by code_simp
  have b: "py_int '' 5 '' = Some 5" by code_simp
  have c: "affirmative ''Y''" by code_simp
  from count_prompt_retries[where bad = "[''-1'', ''0'', ''abc'']" and good = "'' 5 ''" and n = 5
      and w = "\<lparr>stdin = [], mic = [], llm = [], out = []\<rparr>" and rest = "[''7'']"
      and topic = "''Data Science''" and voice = "''Y''"] a b c
  show ?thesis by simp
qed

text \<open>
  C8 as stated fails for a positive integer written with more than 4300 digits: 4300
  zeros and a 5 denote 5, but \<open>int\<close> raises \<open>ValueError\<close> for them, the loop asks again
  and takes the next line.
\<close>

theorem count_prompt_rejects_long_numeral:
  "int_literal (replicate 4300 (CHR ''0'') @ ''5'') = Some 5 \<and>
   answer_of (ask_questions_per_round \<lparr>stdin = [replicate 4300 (CHR ''0'') @ ''5'', ''7''],
      mic = [], llm = [], out = []\<rparr>) = Some 7"
proof
  show "int_literal (replicate 4300 (CHR ''0'') @ ''5'') = Some 5" by (rule long_numeral(1))
next
  let ?w = "\<lparr>stdin = [replicate 4300 (CHR ''0'') @ ''5'', ''7''], mic = [], llm = [], out = []\<rparr>"
  have "stdin ?w = [replicate 4300 (CHR ''0'') @ ''5''] @ ''7'' # []" by simp
  moreover have "\<forall>l\<in>set [replicate 4300 (CHR ''0'') @ ''5'']. invalid_count l"
    by (simp add: invalid_count_def long_numeral(2))
  moreover have "py_int ''7'' = Some 7" by code_simp
  moreover have "(0::int) < 7" by simp
  ultimately have "ask_questions_per_round ?w = Returned 7 (?w\<lparr>stdin := [],
      out := out ?w @ concat (map rejection [replicate 4300 (CHR ''0'') @ ''5'']) @
        [Prompted count_prompt]\<rparr>)"
    by (rule ask_questions_per_round_first_valid)
  then show "answer_of (ask_questions_per_round ?w) = Some 7" by (simp add: answer_of_def)
qed

section \<open>Rounds, question numbers and the end of the session\<close>

text \<open>The question numbers sent to the question chain, in the order of the calls.\<close>

definition asked_numbers :: "event list \<Rightarrow> int list" where
  "asked_numbers es =
     concat (map (\<lambda>e. case e of Question_chain topic n previous \<Rightarrow> [n] | _ \<Rightarrow> []) es)"

lemma asked_numbers_simps [simp]:
  "asked_numbers [] = []"
  "asked_numbers (xs @ ys) = asked_numbers xs @ asked_numbers ys"
  "asked_numbers (Printed t # es) = asked_numbers es"
  "asked_numbers (Said t # es) = asked_numbers es"
  "asked_numbers (Prompted t # es) = asked_numbers es"
  "asked_numbers (Question_chain a n p # es) = n # asked_numbers es"
  "asked_numbers (Feedback_chain a q b # es) = asked_numbers es"
  by (simp_all add: asked_numbers_def)

lemma listen_asked:
  "listen w = Returned u w' \<Longrightarrow> asked_numbers (out w') = asked_numbers (out w)"
  by (auto simp: listen_def Let_def split: list.splits recognition.splits sr_exception.splits)

lemma voice_iteration_asked:
  "voice_iteration ps sc w = Returned x w' \<Longrightarrow> asked_numbers (out w') = asked_numbers (out w)"
  by (auto simp: voice_iteration_def Let_def split: result.splits if_splits dest: listen_asked)

lemma voice_loop_asked:
  "voice_loop ps sc w = Returned r w' \<Longrightarrow> asked_numbers (out w') = asked_numbers (out w)"
proof (induction ps sc w rule: voice_loop.induct)
  case (1 ps sc w)
  show ?case
  proof (cases "sc < max_silence")
    case False
    with "1.prems" show ?thesis by (simp add: voice_loop_done)
  next
    case True
    with "1.prems" obtain ps' sc' w1 where
      it: "voice_iteration ps sc w = Returned (ps', sc') w1"
      and lp: "voice_loop ps' sc' w1 = Returned r w'"
      by (auto simp: voice_loop_step split: result.splits)
    from "1.IH"[OF True it refl lp] voice_iteration_asked[OF it] show ?thesis by simp
  qed
qed

lemma get_user_answer_reads:
  assumes "get_user_answer uv w = Returned a w'"
  shows "\<exists>used. stdin w = used @ stdin w'"
    and "asked_numbers (out w') = asked_numbers (out w)"
proof -
  have "(\<exists>used. stdin w = used @ stdin w') \<and> asked_numbers (out w') = asked_numbers (out w)"
  proof (cases uv)
    case True
    with assms obtain ps where ps: "voice_loop [] 0 (speak voice_banner w) = Returned ps w'"
      by (auto simp: get_user_answer_def split: result.splits)
    from voice_loop_frame[OF ps] have "stdin w = [] @ stdin w'" by simp
    then have "\<exists>used. stdin w = used @ stdin w'" by (intro exI)
    with voice_loop_asked[OF ps] show ?thesis by simp
  next
    case False
    with assms obtain ls where
      ls: "text_loop [] (emit [Printed text_banner] w) = Returned ls w'"
      by (auto simp: get_user_answer_def split: result.splits)
    from text_loop_frame[OF ls] obtain used where "stdin w = used @ stdin w'" "out w' = out w @ [Printed text_banner]"
      by auto
    then have "(\<exists>used. stdin w = used @ stdin w')" "asked_numbers (out w') = asked_numbers (out w)"
      by auto
    then show ?thesis by simp
  qed
  then show "\<exists>used. stdin w = used @ stdin w'"
    and "asked_numbers (out w') = asked_numbers (out w)" by simp_all
qed

lemma ask_question_reads:
  assumes "ask_question s w = Returned s' w'"
  shows "\<exists>used. stdin w = used @ stdin w'"
    and "asked_numbers (out w') = asked_numbers (out w) @ [question_number s]"
    and "\<exists>evs. out w' = out w @ evs"
proof -
  from assms obtain q w2 a w4 f w5 where
    q: "invoke (Question_chain (job_topic s) (question_number s)
          (format_previous_questions (previous_questions s)))
          (emit [Printed (NL @ replicate 60 (CHR ''=''))] w) = Returned q w2"
    and a: "get_user_answer (use_voice s)
          (speak q (speak (''Question '' @ py_str_int (question_number s) @ '':'') w2)) = Returned a w4"
    and f: "invoke (Feedback_chain (job_topic s) q a) (speak ''Analyzing your answer...'' w4)
          = Returned f w5"
    and w': "w' = speak f (speak ''Here's your feedback:'' w5)"
    by (auto simp: ask_question_def Let_def split: result.splits)
  note fq = invoke_frame[OF q] and fa = get_user_answer_frame[OF a] and ff = invoke_frame[OF f]
    and ra = get_user_answer_reads[OF a]
  show "\<exists>used. stdin w = used @ stdin w'" using fq ra(1) ff w' by simp
  show "asked_numbers (out w') = asked_numbers (out w) @ [question_number s]"
    using fq ra(2) ff w' by simp
  from fa(3) obtain evs where "out w4 = out (speak q (speak (''Question '' @ py_str_int (question_number s) @ '':'') w2)) @ evs"
    by blast
  then show "\<exists>evs. out w' = out w @ evs" using fq ff w' by simp
qed

lemma round_loop_frame:
  "round_loop k s w = Returned s' w' \<Longrightarrow>
     question_number s' = question_number s + int k \<and>
     previous_questions s' = previous_questions s @ map (\<lambda>i. llm w ! (2 * i)) [0..<k] \<and>
     asked_numbers (out w') = asked_numbers (out w) @ map (\<lambda>i. question_number s + int i) [0..<k] \<and>
     llm w' = drop (2 * k) (llm w) \<and> 2 * k \<le> length (llm w) \<and>
     (\<exists>used. stdin w = used @ stdin w') \<and> (\<exists>evs. out w' = out w @ evs) \<and>
     job_topic s' = job_topic s \<and> use_voice s' = use_voice s \<and>
     questions_per_round s' = questions_per_round s"
proof (induction k arbitrary: s w)
  case 0
  then show ?case by simp
next
  case (Suc k)
  from Suc.prems obtain s1 w1 where
    1: "ask_question s w = Returned s1 w1" and 2: "round_loop k s1 w1 = Returned s' w'"
    by (auto split: result.splits)
  note f = ask_question_frame[OF 1] and r = ask_question_reads[OF 1] and ih = Suc.IH[OF 2]
  from f(2) obtain q fb where l: "llm w = q # fb # llm w1"
    and p: "previous_questions s1 = previous_questions s @ [q]" by blast
  have nth: "llm w ! (2 * Suc i) = llm w1 ! (2 * i)" for i using l by simp
  have "[0..<Suc k] = 0 # map Suc [0..<k]" by (simp add: upt_conv_Cons map_Suc_upt del: upt_Suc)
  then have m1: "map (\<lambda>i. llm w ! (2 * i)) [0..<Suc k] = q # map (\<lambda>i. llm w1 ! (2 * i)) [0..<k]"
    and m2: "map (\<lambda>i. question_number s + int i) [0..<Suc k] =
      question_number s # map (\<lambda>i. question_number s1 + int i) [0..<k]"
    using l f(3) nth by (simp_all add: comp_def del: upt_Suc)
  have "question_number s' = question_number s + int (Suc k)" using ih f(3) by simp
  moreover have "previous_questions s' =
      previous_questions s @ map (\<lambda>i. llm w ! (2 * i)) [0..<Suc k]"
    using ih p m1 by simp
  moreover have "asked_numbers (out w') =
      asked_numbers (out w) @ map (\<lambda>i. question_number s + int i) [0..<Suc k]"
    using ih r(2) m2 by simp
  moreover have "llm w' = drop (2 * Suc k) (llm w)" "2 * Suc k \<le> length (llm w)"
    using ih l by simp_all
  moreover have "\<exists>used. stdin w = used @ stdin w'"
  proof -
    from r(1) obtain u1 where "stdin w = u1 @ stdin w1" by blast
    moreover from ih obtain u2 where "stdin w1 = u2 @ stdin w'" by blast
    ultimately have "stdin w = (u1 @ u2) @ stdin w'" by simp
    then show ?thesis by (intro exI)
  qed
  moreover have "\<exists>evs. out w' = out w @ evs"
  proof -
    from r(3) obtain e1 where "out w1 = out w @ e1" by blast
    moreover from ih obtain e2 where "out w' = out w1 @ e2" by blast
    ultimately have "out w' = out w @ (e1 @ e2)" by simp
    then show ?thesis by (intro exI)
  qed
  moreover have "job_topic s' = job_topic s" "use_voice s' = use_voice s"
    "questions_per_round s' = questions_per_round s"
    using ih f(4,5,6) by simp_all
  ultimately show ?case by blast
qed

lemma round_decision_Cons:
  "stdin w = c # rest \<Longrightarrow>
   round_decision w = Returned (affirmative c)
     (w\<lparr>stdin := rest, out := out w @
        [Printed continue_question, Said continue_question, Prompted continue_prompt]\<rparr>)"
  by (simp add: round_decision_def py_input_prompt_def py_input_def speak_def emit_def)

lemma round_decision_Nil: "stdin w = [] \<Longrightarrow> round_decision w = Starved"
  by (simp add: round_decision_def py_input_prompt_def py_input_def)

lemma practice_loop_unfold:
  assumes "round_loop (nat (questions_per_round s)) s w = Returned s1 w1"
    and "stdin w1 = c # rest"
  shows "practice_loop s w =
     (if affirmative c
      then practice_loop s1 (w1\<lparr>stdin := rest, out := out w1 @
        [Printed continue_question, Said continue_question, Prompted continue_prompt]\<rparr>)
      else Returned s1 (w1\<lparr>stdin := rest, out := out w1 @
        [Printed continue_question, Said continue_question, Prompted continue_prompt]\<rparr>))"
  by (subst practice_loop.simps) (simp add: assms(1) round_decision_Cons[OF assms(2)])

lemma map_upt_split:
  "map f [0..<k + n] = map f [0..<k] @ map (\<lambda>i. f (k + i)) [0..<n]"
proof -
  have "[0..<k + n] = [0..<k] @ map (\<lambda>i. k + i) [0..<n]"
    by (induction n) simp_all
  then show ?thesis by (simp add: comp_def)
qed

lemma practice_loop_frame:
  "practice_loop s w = Returned s' w' \<Longrightarrow>
   (\<exists>rounds>0.
      question_number s' = question_number s + int (rounds * nat (questions_per_round s)) \<and>
      previous_questions s' = previous_questions s @
        map (\<lambda>i. llm w ! (2 * i)) [0..<rounds * nat (questions_per_round s)] \<and>
      asked_numbers (out w') = asked_numbers (out w) @
        map (\<lambda>i. question_number s + int i) [0..<rounds * nat (questions_per_round s)]) \<and>
   job_topic s' = job_topic s \<and> use_voice s' = use_voice s \<and>
   questions_per_round s' = questions_per_round s \<and>
   (\<exists>used d. stdin w = used @ d # stdin w' \<and> \<not> affirmative d) \<and>
   (\<exists>evs. out w' = out w @ evs @
      [Printed continue_question, Said continue_question, Prompted continue_prompt])"
proof (induction s w rule: practice_loop.induct)
  case (1 s w)
  let ?k = "nat (questions_per_round s)"
  let ?ask = "[Printed continue_question, Said continue_question, Prompted continue_prompt]"
  from "1.prems" obtain s1 w1 where rl: "round_loop ?k s w = Returned s1 w1"
    by (subst (asm) practice_loop.simps) (auto split: result.splits)
  note fr = round_loop_frame[OF rl]
  from fr obtain u1 where u1: "stdin w = u1 @ stdin w1" by blast
  from fr obtain e1 where e1: "out w1 = out w @ e1" by blast
  show ?case
  proof (cases "stdin w1")
    case Nil
    with "1.prems" rl show ?thesis
      by (subst (asm) practice_loop.simps) (simp add: round_decision_Nil)
  next
    case (Cons c rest)
    let ?w2 = "w1\<lparr>stdin := rest, out := out w1 @ ?ask\<rparr>"
    note unf = practice_loop_unfold[OF rl Cons]
    have rd: "round_decision w1 = Returned (affirmative c) ?w2"
      by (rule round_decision_Cons[OF Cons])
    show ?thesis
    proof (cases "affirmative c")
      case False
      with unf "1.prems" have eq: "s' = s1" "w' = ?w2" by simp_all
      have "(0::nat) < 1 \<and>
        question_number s' = question_number s + int (1 * ?k) \<and>
        previous_questions s' = previous_questions s @ map (\<lambda>i. llm w ! (2 * i)) [0..<1 * ?k] \<and>
        asked_numbers (out w') = asked_numbers (out w) @
          map (\<lambda>i. question_number s + int i) [0..<1 * ?k]"
        using fr eq by simp
      then have "\<exists>rounds>0.
        question_number s' = question_number s + int (rounds * ?k) \<and>
        previous_questions s' = previous_questions s @ map (\<lambda>i. llm w ! (2 * i)) [0..<rounds * ?k] \<and>
        asked_numbers (out w') = asked_numbers (out w) @
          map (\<lambda>i. question_number s + int i) [0..<rounds * ?k]"
        by (intro exI)
      moreover have "stdin w = u1 @ c # stdin w' \<and> \<not> affirmative c"
        using u1 Cons eq False by simp
      then have "\<exists>used d. stdin w = used @ d # stdin w' \<and> \<not> affirmative d" by (intro exI)
      moreover have "out w' = out w @ e1 @ ?ask" using e1 eq by simp
      then have "\<exists>evs. out w' = out w @ evs @ ?ask" by (intro exI)
      ultimately show ?thesis using fr eq by simp
    next
      case True
      with unf "1.prems" have pl: "practice_loop s1 ?w2 = Returned s' w'" by simp
      have rd': "round_decision w1 = Returned True ?w2" using rd True by simp
      note ih = "1.IH"[OF rl rd' TrueI pl]
      have k1: "nat (questions_per_round s1) = ?k" using fr by simp
      have w2: "stdin ?w2 = rest" "out ?w2 = out w1 @ ?ask" "llm ?w2 = llm w1" by simp_all
      from ih obtain r where r0: "0 < r"
        "question_number s' = question_number s1 + int (r * nat (questions_per_round s1))"
        "previous_questions s' = previous_questions s1 @
           map (\<lambda>i. llm ?w2 ! (2 * i)) [0..<r * nat (questions_per_round s1)]"
        "asked_numbers (out w') = asked_numbers (out ?w2) @
           map (\<lambda>i. question_number s1 + int i) [0..<r * nat (questions_per_round s1)]"
        by blast
      have r: "0 < r"
        "question_number s' = question_number s1 + int (r * ?k)"
        "previous_questions s' = previous_questions s1 @ map (\<lambda>i. llm w1 ! (2 * i)) [0..<r * ?k]"
        "asked_numbers (out w') = asked_numbers (out w1) @
           map (\<lambda>i. question_number s1 + int i) [0..<r * ?k]"
        using r0 unfolding k1 w2 by simp_all
      from ih obtain u2 d where "stdin ?w2 = u2 @ d # stdin w'" "\<not> affirmative d" by blast
      then have u2: "rest = u2 @ d # stdin w'" "\<not> affirmative d" unfolding w2 by simp_all
      from ih obtain e2 where "out w' = out ?w2 @ e2 @ ?ask" by blast
      then have e2: "out w' = out w1 @ ?ask @ e2 @ ?ask" unfolding w2 by simp
      have same: "job_topic s' = job_topic s1" "use_voice s' = use_voice s1"
        "questions_per_round s' = questions_per_round s1"
        using ih by blast+
      have nth: "llm w1 ! (2 * i) = llm w ! (2 * (?k + i))" for i
        using fr by (simp add: add_mult_distrib2)
      have sp: "Suc r * ?k = ?k + r * ?k" by simp
      have "question_number s' = question_number s + int (Suc r * ?k)"
        using r(2) fr by (simp add: algebra_simps)
      moreover have "previous_questions s' = previous_questions s @
          map (\<lambda>i. llm w ! (2 * i)) [0..<Suc r * ?k]"
        unfolding sp map_upt_split using r(3) fr nth by simp
      moreover have "asked_numbers (out w') = asked_numbers (out w) @
          map (\<lambda>i. question_number s + int i) [0..<Suc r * ?k]"
        unfolding sp map_upt_split using r(4) fr by (simp add: algebra_simps)
      ultimately have "0 < Suc r \<and>
        question_number s' = question_number s + int (Suc r * ?k) \<and>
        previous_questions s' = previous_questions s @ map (\<lambda>i. llm w ! (2 * i)) [0..<Suc r * ?k] \<and>
        asked_numbers (out w') = asked_numbers (out w) @
          map (\<lambda>i. question_number s + int i) [0..<Suc r * ?k]"
        by simp
      then have "\<exists>rounds>0.
        question_number s' = question_number s + int (rounds * ?k) \<and>
        previous_questions s' = previous_questions s @ map (\<lambda>i. llm w ! (2 * i)) [0..<rounds * ?k] \<and>
        asked_numbers (out w') = asked_numbers (out w) @
          map (\<lambda>i. question_number s + int i) [0..<rounds * ?k]"
        by (intro exI)
      moreover have "stdin w = (u1 @ c # u2) @ d # stdin w' \<and> \<not> affirmative d"
        using u1 Cons u2 by simp
      then have "\<exists>used d. stdin w = used @ d # stdin w' \<and> \<not> affirmative d" by (intro exI)
      moreover have "out w' = out w @ (e1 @ ?ask @ e2) @ ?ask" using e1 e2 by simp
      then have "\<exists>evs. out w' = out w @ evs @ ?ask" by (intro exI)
      moreover have "job_topic s' = job_topic s" "use_voice s' = use_voice s"
        "questions_per_round s' = questions_per_round s"
        using same fr by simp_all
      ultimately show ?thesis by simp
    qed
  qed
qed


lemma ask_questions_per_round_frame:
  "ask_questions_per_round w = Returned n w' \<Longrightarrow>
     0 < n \<and> asked_numbers (out w') = asked_numbers (out w) \<and>
     (\<exists>used. stdin w = used @ stdin w') \<and> (\<exists>evs. out w' = out w @ evs)"
proof (induction "stdin w" arbitrary: w)
  case Nil
  then show ?case by (simp add: ask_questions_per_round_Nil)
next
  case (Cons l ls)
  from Cons.hyps(2) have st: "stdin w = l # ls" by simp
  show ?case
  proof (cases "invalid_count l")
    case True
    let ?w1 = "w\<lparr>stdin := ls, out := out w @ rejection l\<rparr>"
    have "ask_questions_per_round w = ask_questions_per_round ?w1"
      by (rule ask_questions_per_round_reject[OF st True])
    with Cons.prems have "ask_questions_per_round ?w1 = Returned n w'" by simp
    moreover have "ls = stdin ?w1" by simp
    ultimately have ih: "0 < n \<and> asked_numbers (out w') = asked_numbers (out ?w1) \<and>
        (\<exists>used. stdin ?w1 = used @ stdin w') \<and> (\<exists>evs. out w' = out ?w1 @ evs)"
      using Cons.hyps(1) by blast
    from ih obtain used where "ls = used @ stdin w'" by auto
    then have "stdin w = (l # used) @ stdin w'" using st by simp
    then have a: "\<exists>used. stdin w = used @ stdin w'" by (intro exI)
    from ih obtain evs where "out w' = out w @ rejection l @ evs" by auto
    then have b: "\<exists>evs. out w' = out w @ evs" by (intro exI)
    have "asked_numbers (rejection l) = []"
      by (simp add: rejection_def split: option.splits)
    with ih have "asked_numbers (out w') = asked_numbers (out w)" by simp
    with ih a b show ?thesis by simp
  next
    case False
    then obtain m where m: "py_int l = Some m" "0 < m"
      by (auto simp: invalid_count_def split: option.splits)
    from ask_questions_per_round_accept[OF st m] Cons.prems
    have eq: "n = m" "w' = w\<lparr>stdin := ls, out := out w @ [Prompted count_prompt]\<rparr>" by simp_all
    have "stdin w = [l] @ stdin w'" using st eq by simp
    then have a: "\<exists>used. stdin w = used @ stdin w'" by (intro exI)
    have "out w' = out w @ [Prompted count_prompt]" using eq by simp
    then have b: "\<exists>evs. out w' = out w @ evs" by (intro exI)
    show ?thesis using m eq a b by simp
  qed
qed

lemma configure_frame:
  assumes "configure w = Returned s w'"
  shows "question_number s = 1" "previous_questions s = []" "0 < questions_per_round s"
    "asked_numbers (out w') = asked_numbers (out w)"
    "\<exists>topic voice rest. stdin w = topic # voice # rest \<and> job_topic s = topic \<and>
       use_voice s = affirmative voice"
    "\<exists>used. stdin w = used @ stdin w'" "\<exists>evs. out w' = out w @ evs"
proof -
  obtain topic voice rest where st: "stdin w = topic # voice # rest"
  proof (cases "stdin w")
    case Nil
    with assms show ?thesis
      by (simp add: configure_def Let_def py_input_prompt_def py_input_def)
  next
    case (Cons t ts)
    with assms that show ?thesis
      by (cases ts) (simp_all add: configure_def Let_def py_input_prompt_def py_input_def)
  qed
  let ?evs = "[Printed ''Welcome to InterviewMate Practice System!'',
           Said ''Welcome to InterviewMate Practice System!'',
           Printed ''Enter the job topic you want to practice for. For example, Software Engineering, Marketing, or Data Science.'',
           Said ''Enter the job topic you want to practice for. For example, Software Engineering, Marketing, or Data Science.'',
           Prompted ''Enter job topic: '',
           Printed ''Would you like to use voice input for your answers? Say yes or no.'',
           Said ''Would you like to use voice input for your answers? Say yes or no.'',
           Prompted ''Use voice input for answers? (yes/no): '',
           Printed ''How many questions would you like to practice per round?'',
           Said ''How many questions would you like to practice per round?'']"
  let ?w1 = "w\<lparr>stdin := rest, out := out w @ ?evs\<rparr>"
  from assms configure_unfold[OF st] obtain n where
    n: "ask_questions_per_round ?w1 = Returned n w'"
    and s: "s = \<lparr>job_topic = topic, use_voice = affirmative voice, questions_per_round = n,
             question_number = 1, previous_questions = []\<rparr>"
    by (auto split: result.splits)
  note fr = ask_questions_per_round_frame[OF n]
  show "question_number s = 1" "previous_questions s = []" using s by simp_all
  show "0 < questions_per_round s" using s fr by simp
  show "asked_numbers (out w') = asked_numbers (out w)" using fr by simp
  have "stdin w = topic # voice # rest \<and> job_topic s = topic \<and> use_voice s = affirmative voice"
    using st s by simp
  then show "\<exists>topic voice rest. stdin w = topic # voice # rest \<and> job_topic s = topic \<and>
       use_voice s = affirmative voice" by (intro exI)
  from fr obtain used where "rest = used @ stdin w'" by auto
  then have "stdin w = (topic # voice # used) @ stdin w'" using st by simp
  then show "\<exists>used. stdin w = used @ stdin w'" by (intro exI)
  from fr obtain evs where "out w' = out w @ ?evs @ evs" by auto
  then show "\<exists>evs. out w' = out w @ evs" by (intro exI)
qed

lemma run_interview_session_Returned:
  assumes "run_interview_session w = Returned s' w'"
  obtains s0 w0 w2 where "configure w = Returned s0 w0" "practice_loop s0 w0 = Returned s' w2"
    "w' = speak closing w2"
  using assms by (auto simp: run_interview_session_def split: result.splits)

text \<open>
  C1. A completed round of \<open>k\<close> questions that starts at question number \<open>n\<close> with \<open>m\<close>
  previous questions ends at \<open>n + k\<close> with \<open>m + k\<close>: the new entries are the completions
  of the question chain in the order they were generated (the model answers a question
  request and a feedback request in turn), and the numbers sent are \<open>n\<close>, \<open>n + 1\<close>, ...,
  \<open>n + k - 1\<close>. Over a whole session that returns, after any number of rounds, the
  numbers sent are 1, 2, 3, ... without a gap or a repeat, and as many questions are
  stored.
\<close>

theorem question_numbering:
  "(\<forall>s' w'. round_loop k s w = Returned s' w' \<longrightarrow>
      question_number s' = question_number s + int k \<and>
      length (previous_questions s') = length (previous_questions s) + k \<and>
      previous_questions s' = previous_questions s @ map (\<lambda>i. llm w ! (2 * i)) [0..<k] \<and>
      asked_numbers (out w') =
        asked_numbers (out w) @ map (\<lambda>i. question_number s + int i) [0..<k]) \<and>
   (\<forall>s' w'. run_interview_session v = Returned s' w' \<longrightarrow>
      0 < questions_per_round s' \<and>
      (\<exists>rounds>0.
         question_number s' = 1 + int (rounds * nat (questions_per_round s')) \<and>
         length (previous_questions s') = rounds * nat (questions_per_round s') \<and>
         asked_numbers (out w') = asked_numbers (out v) @
           map (\<lambda>i. 1 + int i) [0..<rounds * nat (questions_per_round s')]))"
proof (intro conjI allI impI)
  fix s' w'
  assume "round_loop k s w = Returned s' w'"
  note fr = round_loop_frame[OF this]
  show "question_number s' = question_number s + int k" using fr by simp
  show "previous_questions s' = previous_questions s @ map (\<lambda>i. llm w ! (2 * i)) [0..<k]"
    using fr by simp
  then show "length (previous_questions s') = length (previous_questions s) + k" by simp
  show "asked_numbers (out w') =
      asked_numbers (out w) @ map (\<lambda>i. question_number s + int i) [0..<k]"
    using fr by simp
next
  fix s' w'
  assume run: "run_interview_session v = Returned s' w'"
  then obtain s0 w0 w2 where c: "configure v = Returned s0 w0"
    and p: "practice_loop s0 w0 = Returned s' w2" and w': "w' = speak closing w2"
    by (rule run_interview_session_Returned)
  note cf = configure_frame[OF c] and pf = practice_loop_frame[OF p]
  from pf have q: "questions_per_round s' = questions_per_round s0" by simp
  show "0 < questions_per_round s'" using cf(3) q by simp
  from pf obtain r where r: "0 < r"
    "question_number s' = question_number s0 + int (r * nat (questions_per_round s0))"
    "previous_questions s' = previous_questions s0 @
       map (\<lambda>i. llm w0 ! (2 * i)) [0..<r * nat (questions_per_round s0)]"
    "asked_numbers (out w2) = asked_numbers (out w0) @
       map (\<lambda>i. question_number s0 + int i) [0..<r * nat (questions_per_round s0)]"
    by blast
  have "0 < r \<and>
      question_number s' = 1 + int (r * nat (questions_per_round s')) \<and>
      length (previous_questions s') = r * nat (questions_per_round s') \<and>
      asked_numbers (out w') = asked_numbers (out v) @
        map (\<lambda>i. 1 + int i) [0..<r * nat (questions_per_round s')]"
    using r cf(1,2,4) q w' by simp
  then show "\<exists>rounds>0.
      question_number s' = 1 + int (rounds * nat (questions_per_round s')) \<and>
      length (previous_questions s') = rounds * nat (questions_per_round s') \<and>
      asked_numbers (out w') = asked_numbers (out v) @
        map (\<lambda>i. 1 + int i) [0..<rounds * nat (questions_per_round s')]"
    by (intro exI)
qed

theorem question_numbering_witness:
  "\<exists>w'. run_interview_session \<lparr>stdin = [''Data'', ''no'', ''2'', ''a1'', '''', ''a2'', '''', ''yes'',
        ''a3'', '''', ''a4'', '''', ''n''], mic = [],
        llm = [''Q1'', ''F1'', ''Q2'', ''F2'', ''Q3'', ''F3'', ''Q4'', ''F4''], out = []\<rparr> =
      Returned \<lparr>job_topic = ''Data'', use_voice = False, questions_per_round = 2,
        question_number = 5, previous_questions = [''Q1'', ''Q2'', ''Q3'', ''Q4'']\<rparr> w' \<and>
      asked_numbers (out w') = [1, 2, 3, 4]"
proof -
  let ?W = "\<lparr>stdin = [''Data'', ''no'', ''2'', ''a1'', '''', ''a2'', '''', ''yes'',
        ''a3'', '''', ''a4'', '''', ''n''], mic = [],
        llm = [''Q1'', ''F1'', ''Q2'', ''F2'', ''Q3'', ''F3'', ''Q4'', ''F4''], out = []\<rparr>"
  let ?S = "\<lparr>job_topic = ''Data'', use_voice = False, questions_per_round = 2,
        question_number = 5, previous_questions = [''Q1'', ''Q2'', ''Q3'', ''Q4'']\<rparr>"
  have "answer_of (run_interview_session ?W) = Some ?S" by code_simp
  then obtain w' where run: "run_interview_session ?W = Returned ?S w'"
    by (cases "run_interview_session ?W") (simp_all add: answer_of_def)
  from question_numbering[of 0 ?S ?W ?W] run obtain r where
    r: "0 < r" "question_number ?S = 1 + int (r * nat (questions_per_round ?S))"
      "asked_numbers (out w') = asked_numbers (out ?W) @
         map (\<lambda>i. 1 + int i) [0..<r * nat (questions_per_round ?S)]"
    by blast
  from r(2) have "r = 2" by simp
  moreover have "[0..<4] = [0, 1, 2, 3]" by code_simp
  ultimately have "asked_numbers (out w') = [1, 2, 3, 4]" using r(3) by simp
  with run show ?thesis by blast
qed

text \<open>
  C9. The answer to the question after a round counts as yes exactly when it is one of
  the spellings of \<open>yes\<close> and \<open>y\<close> in upper and lower case. On yes the loop runs another
  round from the state the round left; on anything else it ends, and the session says
  the closing message and returns. A session that returns has always ended so: the last
  line it read was not a yes, and the closing message is the last thing it said. The
  voice mode of the session is the same test applied to the second line read.
\<close>

theorem round_decision_rule:
  "(affirmative x \<longleftrightarrow>
      x \<in> set [''yes'', ''yeS'', ''yEs'', ''yES'', ''Yes'', ''YeS'', ''YEs'', ''YES'', ''y'', ''Y'']) \<and>
   round_decision (w\<lparr>stdin := c # rest\<rparr>) =
     Returned (affirmative c) (w\<lparr>stdin := rest, out := out w @
       [Printed continue_question, Said continue_question, Prompted continue_prompt]\<rparr>) \<and>
   (\<forall>s1 w1 d more.
      round_loop (nat (questions_per_round s)) s v = Returned s1 w1 \<and> stdin w1 = d # more \<longrightarrow>
      practice_loop s v =
        (if affirmative d
         then practice_loop s1 (w1\<lparr>stdin := more, out := out w1 @
           [Printed continue_question, Said continue_question, Prompted continue_prompt]\<rparr>)
         else Returned s1 (w1\<lparr>stdin := more, out := out w1 @
           [Printed continue_question, Said continue_question, Prompted continue_prompt]\<rparr>))) \<and>
   (\<forall>s0 w0 s1 w1 d more.
      configure u = Returned s0 w0 \<and>
      round_loop (nat (questions_per_round s0)) s0 w0 = Returned s1 w1 \<and>
      stdin w1 = d # more \<and> \<not> affirmative d \<longrightarrow>
      run_interview_session u = Returned s1 (w1\<lparr>stdin := more, out := out w1 @
        [Printed continue_question, Said continue_question, Prompted continue_prompt,
         Printed closing, Said closing]\<rparr>)) \<and>
   (\<forall>s' w'. run_interview_session u = Returned s' w' \<longrightarrow>
      (\<exists>used d evs. stdin u = used @ d # stdin w' \<and> \<not> affirmative d \<and>
         out w' = out u @ evs @ [Prompted continue_prompt, Printed closing, Said closing])) \<and>
   (\<forall>s0 w0. configure u = Returned s0 w0 \<longrightarrow>
      (\<exists>topic voice more. stdin u = topic # voice # more \<and>
         use_voice s0 = affirmative voice))"
proof (intro conjI allI impI)
  show "affirmative x \<longleftrightarrow>
      x \<in> set [''yes'', ''yeS'', ''yEs'', ''yES'', ''Yes'', ''YeS'', ''YEs'', ''YES'', ''y'', ''Y'']"
    by (rule affirmative_iff)
next
  have "stdin (w\<lparr>stdin := c # rest\<rparr>) = c # rest" by simp
  from round_decision_Cons[OF this]
  show "round_decision (w\<lparr>stdin := c # rest\<rparr>) =
     Returned (affirmative c) (w\<lparr>stdin := rest, out := out w @
       [Printed continue_question, Said continue_question, Prompted continue_prompt]\<rparr>)"
    by simp
next
  fix s1 w1 d more
  assume "round_loop (nat (questions_per_round s)) s v = Returned s1 w1 \<and> stdin w1 = d # more"
  then have "round_loop (nat (questions_per_round s)) s v = Returned s1 w1" "stdin w1 = d # more"
    by simp_all
  then show "practice_loop s v =
        (if affirmative d
         then practice_loop s1 (w1\<lparr>stdin := more, out := out w1 @
           [Printed continue_question, Said continue_question, Prompted continue_prompt]\<rparr>)
         else Returned s1 (w1\<lparr>stdin := more, out := out w1 @
           [Printed continue_question, Said continue_question, Prompted continue_prompt]\<rparr>))"
    by (rule practice_loop_unfold)
next
  fix s0 w0 s1 w1 d more
  assume a: "configure u = Returned s0 w0 \<and>
      round_loop (nat (questions_per_round s0)) s0 w0 = Returned s1 w1 \<and>
      stdin w1 = d # more \<and> \<not> affirmative d"
  then have rl: "round_loop (nat (questions_per_round s0)) s0 w0 = Returned s1 w1"
    and st: "stdin w1 = d # more" by simp_all
  from practice_loop_unfold[OF rl st] a
  have "practice_loop s0 w0 = Returned s1 (w1\<lparr>stdin := more, out := out w1 @
      [Printed continue_question, Said continue_question, Prompted continue_prompt]\<rparr>)"
    by simp
  with a show "run_interview_session u = Returned s1 (w1\<lparr>stdin := more, out := out w1 @
        [Printed continue_question, Said continue_question, Prompted continue_prompt,
         Printed closing, Said closing]\<rparr>)"
    by (simp add: run_interview_session_def speak_def emit_def)
next
  fix s' w'
  assume "run_interview_session u = Returned s' w'"
  then obtain s0 w0 w2 where c: "configure u = Returned s0 w0"
    and p: "practice_loop s0 w0 = Returned s' w2" and w': "w' = speak closing w2"
    by (rule run_interview_session_Returned)
  from configure_frame(6,7)[OF c] obtain u0 e0 where
    0: "stdin u = u0 @ stdin w0" "out w0 = out u @ e0" by blast
  from practice_loop_frame[OF p] obtain u1 d e1 where
    1: "stdin w0 = u1 @ d # stdin w2" "\<not> affirmative d"
       "out w2 = out w0 @ e1 @
          [Printed continue_question, Said continue_question, Prompted continue_prompt]"
    by blast
  have "stdin u = (u0 @ u1) @ d # stdin w' \<and> \<not> affirmative d \<and>
      out w' = out u @ (e0 @ e1 @ [Printed continue_question, Said continue_question]) @
        [Prompted continue_prompt, Printed closing, Said closing]"
    using 0 1 w' by simp
  then show "\<exists>used d evs. stdin u = used @ d # stdin w' \<and> \<not> affirmative d \<and>
      out w' = out u @ evs @ [Prompted continue_prompt, Printed closing, Said closing]"
    by (intro exI)
next
  fix s0 w0
  assume "configure u = Returned s0 w0"
  from configure_frame(5)[OF this] obtain topic voice more where
    "stdin u = topic # voice # more \<and> use_voice s0 = affirmative voice" by blast
  then show "\<exists>topic voice more. stdin u = topic # voice # more \<and>
      use_voice s0 = affirmative voice" by (intro exI)
qed

theorem round_decision_rule_witness:
  "\<exists>w' used d evs.
      run_interview_session \<lparr>stdin = [''Cooking'', ''YES'', ''1'', ''Y'', ''maybe'', ''yes''],
        mic = replicate 6 (Raises UnknownValueError),
        llm = [''Q1'', ''F1'', ''Q2'', ''F2'', ''Q3''], out = []\<rparr> =
      Returned \<lparr>job_topic = ''Cooking'', use_voice = True, questions_per_round = 1,
        question_number = 3, previous_questions = [''Q1'', ''Q2'']\<rparr> w' \<and>
      [''Cooking'', ''YES'', ''1'', ''Y'', ''maybe'', ''yes''] = used @ d # stdin w' \<and>
      \<not> affirmative d \<and>
      out w' = evs @ [Prompted continue_prompt, Printed closing, Said closing]"
proof -
  let ?W = "\<lparr>stdin = [''Cooking'', ''YES'', ''1'', ''Y'', ''maybe'', ''yes''],
        mic = replicate 6 (Raises UnknownValueError),
        llm = [''Q1'', ''F1'', ''Q2'', ''F2'', ''Q3''], out = []\<rparr>"
  let ?S = "\<lparr>job_topic = ''Cooking'', use_voice = True, questions_per_round = 1,
        question_number = 3, previous_questions = [''Q1'', ''Q2'']\<rparr>"
  have "answer_of (run_interview_session ?W) = Some ?S" by code_simp
  then obtain w' where run: "run_interview_session ?W = Returned ?S w'"
    by (cases "run_interview_session ?W") (simp_all add: answer_of_def)
  note rule = round_decision_rule[where u = ?W and x = "[]" and w = ?W and c = "[]"
      and rest = "[]" and s = ?S and v = ?W]
  from rule run obtain used d evs where
    "stdin ?W = used @ d # stdin w'" "\<not> affirmative d"
    "out w' = out ?W @ evs @ [Prompted continue_prompt, Printed closing, Said closing]"
    by blast
  with run have "run_interview_session ?W = Returned ?S w' \<and>
      [''Cooking'', ''YES'', ''1'', ''Y'', ''maybe'', ''yes''] = used @ d # stdin w' \<and>
      \<not> affirmative d \<and>
      out w' = evs @ [Prompted continue_prompt, Printed closing, Said closing]"
    by simp
  then show ?thesis by (intro exI)
qed

section \<open>The prompt of the question chain\<close>

text \<open>
  The values that reach the prompt template, and Python's \<open>repr\<close> and \<open>str\<close> of them.
  \<open>repr\<close> of a string quotes it (with double quotes when it holds a single quote and no
  double quote) and escapes the quote, the backslash, tab, newline, carriage return and
  every character that is not printable; \<open>str\<close> of a dict is its \<open>repr\<close>.
\<close>

datatype py_value = PyStr string | PyInt int | PyDict "(string \<times> py_value) list"

definition printable :: "char \<Rightarrow> bool" where
  "printable c = (let n = (of_char c :: nat) in (32 \<le> n \<and> n < 127) \<or> (161 \<le> n \<and> n \<noteq> 173))"

definition hex2 :: "char \<Rightarrow> string" where
  "hex2 c = (let n = (of_char c :: nat) in
     [''0123456789abcdef'' ! (n div 16), ''0123456789abcdef'' ! (n mod 16)])"

definition escape_char :: "char \<Rightarrow> char \<Rightarrow> string" where
  "escape_char quote c =
     (if c = quote \<or> c = CHR 0x5C then [CHR 0x5C, c]
      else if c = CHR 0x09 then [CHR 0x5C, CHR ''t'']
      else if c = CHR 0x0A then [CHR 0x5C, CHR ''n'']
      else if c = CHR 0x0D then [CHR 0x5C, CHR ''r'']
      else if printable c then [c]
      else [CHR 0x5C, CHR ''x''] @ hex2 c)"

definition repr_str :: "string \<Rightarrow> string" where
  "repr_str s =
     (let quote = (if CHR 0x27 \<in> set s \<and> CHR 0x22 \<notin> set s then CHR 0x22 else CHR 0x27)
      in [quote] @ concat (map (escape_char quote) s) @ [quote])"

fun py_repr :: "py_value \<Rightarrow> string" where
  "py_repr (PyStr s) = repr_str s"
| "py_repr (PyInt n) = py_str_int n"
| "py_repr (PyDict items) =
     ''{'' @ py_join '', '' (map (\<lambda>kv. repr_str (fst kv) @ '': '' @ py_repr (snd kv)) items) @ ''}''"

fun py_str :: "py_value \<Rightarrow> string" where
  "py_str (PyStr s) = s"
| "py_str v = py_repr v"

text \<open>
  A template is its literal text with the replacement fields \<open>{name}\<close> between; formatting
  puts \<open>str\<close> of the argument of that name in each field (\<open>None\<close>: no such argument).
\<close>

datatype segment = Lit string | Field string

fun format_template :: "segment list \<Rightarrow> (string \<times> py_value) list \<Rightarrow> string option" where
  "format_template [] kwargs = Some []"
| "format_template (Lit text # rest) kwargs = map_option (\<lambda>r. text @ r) (format_template rest kwargs)"
| "format_template (Field name # rest) kwargs =
     (case map_of kwargs name of
        None \<Rightarrow> None
      | Some v \<Rightarrow> map_option (\<lambda>r. py_str v @ r) (format_template rest kwargs))"

definition DQ :: string where
  "DQ = [CHR 0x22]"

definition question_template :: "segment list" where
  "question_template =
     [Lit (NL @
        ''You are an AI interview assistant named '' @ DQ @ ''InterviewMate'' @ DQ @
        ''. You are an expert interviewer for all professional fields.'' @ NL @
        NL @
        ''The user wants to practice for an interview in the field of: ''),
      Field ''job_topic'',
      Lit (NL @
        NL @
        ''Generate a challenging and realistic interview question about ''),
      Field ''job_topic'',
      Lit ''. This should be question #'',
      Field ''question_number'',
      Lit ('' in the practice session.'' @ NL @
        NL @
        ''Make sure the question is:'' @ NL @
        ''- Technical and specific to the job topic'' @ NL @
        ''- Similar to what might be asked in a real interview'' @ NL @
        ''- Challenging but answerable'' @ NL @
        ''- Clear and concise'' @ NL @
        NL @
        ''Previous questions asked in this session:'' @ NL),
      Field ''previous_questions'',
      Lit (NL @
        NL @
        ''IMPORTANT: Do NOT repeat any of the previous questions. Generate a completely new and different question.'' @ NL @
        NL @
        ''Return ONLY the interview question without any introductory text or explanations.'' @ NL)]"

text \<open>
  The first step of \<open>question_chain\<close> is a dict of three \<open>RunnablePassthrough()\<close>. Such a
  dict runs every entry on the input of the chain, and a passthrough returns its input:
  each of the three names is bound to the whole dict given to \<open>invoke\<close>, and that is what
  the template formats.
\<close>

definition passthrough_dict :: "string list \<Rightarrow> py_value \<Rightarrow> (string \<times> py_value) list" where
  "passthrough_dict keys input = map (\<lambda>key. (key, input)) keys"

definition question_chain_prompt :: "string \<Rightarrow> int \<Rightarrow> string \<Rightarrow> string option" where
  "question_chain_prompt topic number previous =
     format_template question_template
       (passthrough_dict [''job_topic'', ''question_number'', ''previous_questions'']
          (PyDict [(''job_topic'', PyStr topic), (''question_number'', PyInt number),
                 (''previous_questions'', PyStr previous)]))"

definition render_question_prompt :: "string \<Rightarrow> int \<Rightarrow> string list \<Rightarrow> string option" where
  "render_question_prompt topic number questions =
     question_chain_prompt topic number (format_previous_questions questions)"

text \<open>
  The rendering as the specification words it: the topic, the number and the formatted
  previous questions are embedded themselves.
\<close>

definition spec_render_question_prompt :: "string \<Rightarrow> int \<Rightarrow> string list \<Rightarrow> string option" where
  "spec_render_question_prompt topic number questions =
     format_template question_template
       [(''job_topic'', PyStr topic), (''question_number'', PyInt number),
        (''previous_questions'', PyStr (format_previous_questions questions))]"

text \<open>The lines of a text, split at the newline characters.\<close>

fun split_lines :: "string \<Rightarrow> string list" where
  "split_lines [] = [[]]"
| "split_lines (c # cs) =
     (if c = CHR 0x0A then [] # split_lines cs
      else case split_lines cs of [] \<Rightarrow> [[c]] | l # ls \<Rightarrow> (c # l) # ls)"

subsection \<open>The previous questions in the prompt\<close>

lemma chain_prompt_no_bullet_lines:
  "map_option (\<lambda>p. filter (\<lambda>l. l \<in> set [''- Q1'', ''- Q2'']) (split_lines p))
     (render_question_prompt ''X'' 3 [''Q1'', ''Q2'']) = Some []"
  by code_simp

lemma spec_prompt_bullet_lines:
  "map_option (\<lambda>p. filter (\<lambda>l. l \<in> set [''- Q1'', ''- Q2'']) (split_lines p))
     (spec_render_question_prompt ''X'' 3 [''Q1'', ''Q2'']) = Some [''- Q1'', ''- Q2'']"
  by code_simp

lemma chain_prompt_previous_block:
  "map_option (\<lambda>p. drop 13 (take 16 (split_lines p)))
     (render_question_prompt ''X'' 3 [''Q1'', ''Q2'']) =
     Some [''Previous questions asked in this session:'',
       ''{'job_topic': 'X', 'question_number': 3, 'previous_questions': '- Q1'' @ [CHR 0x5C] @
         ''n- Q2'}'',
       []]"
  by code_simp

text \<open>
  C7 fails on the prompt the chain renders. For the topic \<open>X\<close>, question 3 and the previous
  questions \<open>Q1\<close>, \<open>Q2\<close>, no line of the prompt is \<open>- Q1\<close> or \<open>- Q2\<close>: the line after
  \<open>Previous questions asked in this session:\<close> is the \<open>repr\<close> of the whole dict, in which
  the newline between the two bullets is the two characters backslash and \<open>n\<close>. Embedding
  the three values themselves, as the specification words it, gives the two bullet lines
  in order.
\<close>

theorem question_prompt_previous_questions_on_one_line:
  "map_option (\<lambda>p. filter (\<lambda>l. l \<in> set [''- Q1'', ''- Q2'']) (split_lines p))
     (render_question_prompt ''X'' 3 [''Q1'', ''Q2'']) = Some [] \<and>
   map_option (\<lambda>p. filter (\<lambda>l. l \<in> set [''- Q1'', ''- Q2'']) (split_lines p))
     (spec_render_question_prompt ''X'' 3 [''Q1'', ''Q2'']) = Some [''- Q1'', ''- Q2''] \<and>
   map_option (\<lambda>p. drop 13 (take 16 (split_lines p)))
     (render_question_prompt ''X'' 3 [''Q1'', ''Q2'']) =
     Some [''Previous questions asked in this session:'',
       ''{'job_topic': 'X', 'question_number': 3, 'previous_questions': '- Q1'' @ [CHR 0x5C] @
         ''n- Q2'}'',
       []]"
  using chain_prompt_no_bullet_lines spec_prompt_bullet_lines chain_prompt_previous_block
  by (intro conjI)

end
